theory Spec2Isabelle
  imports Main "HOL-Library.Word" "HOL-Library.Monad_Syntax"
begin

unbundle bit_operations_syntax

section \<open>Push-data parsing (test/internal\_benchmarks/push\_data\_parsing.cpp)\<close>

text \<open>
  The benchmark file holds three variants of the parser that the analyzer uses for the
  immediate data of \<open>PUSH1\<close> .. \<open>PUSH8\<close>, and two variants of the big-endian load.
  Buffers are byte lists. A pointer into the code buffer is the index it points at
  (\<open>code_pos - code\<close>), and \<open>code_end - code\<close> is the length of the list. Sizes and
  indices are \<open>nat\<close>: every value of type \<open>size_t\<close> or \<open>ptrdiff_t\<close> in these functions is
  bounded by the size of a buffer plus 8, so none of the additions wraps. The parsers
  only add to \<open>code_pos\<close> and never read through it, so the new position may lie past
  the end of the code.

  A read or a write outside a buffer is undefined behaviour in C++. The model makes it
  a value: every access goes through \<open>read_u8\<close> or \<open>write_u8\<close>, and \<open>None\<close> is the
  outcome of a function that accessed a buffer out of range.
\<close>

type_synonym u8 = "8 word"
type_synonym u64 = "64 word"

datatype push_opcode = PUSH1 | PUSH2 | PUSH3 | PUSH4 | PUSH5 | PUSH6 | PUSH7 | PUSH8

text \<open>The enumerators' values: \<open>PUSH1\<close> is 0, each next one is one more.\<close>

fun push_opcode_value :: "push_opcode \<Rightarrow> nat" where
  "push_opcode_value PUSH1 = 0"
| "push_opcode_value PUSH2 = 1"
| "push_opcode_value PUSH3 = 2"
| "push_opcode_value PUSH4 = 3"
| "push_opcode_value PUSH5 = 4"
| "push_opcode_value PUSH6 = 5"
| "push_opcode_value PUSH7 = 6"
| "push_opcode_value PUSH8 = 7"

definition num_push_opcodes :: nat where
  "num_push_opcodes = push_opcode_value PUSH8 + 1"

definition read_u8 :: "u8 list \<Rightarrow> nat \<Rightarrow> u8 option" where
  "read_u8 buf k = (if k < length buf then Some (buf ! k) else None)"

definition write_u8 :: "u8 list \<Rightarrow> nat \<Rightarrow> u8 \<Rightarrow> u8 list option" where
  "write_u8 buf k b = (if k < length buf then Some (buf[k := b]) else None)"

text \<open>
  \<open>load64be\<close>: the eight bytes at \<open>data\<close>, most significant first, by shifts and ors.
  \<open>uint64_t{data[k]}\<close> is \<open>ucast\<close>, \<open><<\<close> is \<open>push_bit\<close>, \<open>|\<close> is \<open>OR\<close>.
\<close>

definition load64be :: "u8 list \<Rightarrow> u64 option" where
  "load64be data = do {
     d7 \<leftarrow> read_u8 data 7; d6 \<leftarrow> read_u8 data 6; d5 \<leftarrow> read_u8 data 5;
     d4 \<leftarrow> read_u8 data 4; d3 \<leftarrow> read_u8 data 3; d2 \<leftarrow> read_u8 data 2;
     d1 \<leftarrow> read_u8 data 1; d0 \<leftarrow> read_u8 data 0;
     Some (ucast d7 OR push_bit 8 (ucast d6) OR push_bit 16 (ucast d5) OR
           push_bit 24 (ucast d4) OR push_bit 32 (ucast d3) OR push_bit 40 (ucast d2) OR
           push_bit 48 (ucast d1) OR push_bit 56 (ucast d0))
   }"

text \<open>
  \<open>load64be_fast\<close> copies the eight bytes into a \<open>uint64_t\<close> and swaps its bytes.
  What \<open>memcpy\<close> leaves in \<open>x\<close> depends on the byte order of the machine. The targets
  this repository builds for (the Linux and macOS executors of its CI configuration)
  are little-endian: the byte at the lowest address is the least significant one.
  \<open>__builtin_bswap64\<close> reverses the order of the eight bytes of its argument.
\<close>

definition memcpy_u64 :: "u8 list \<Rightarrow> u64 option" where
  "memcpy_u64 data = do {
     d0 \<leftarrow> read_u8 data 0; d1 \<leftarrow> read_u8 data 1; d2 \<leftarrow> read_u8 data 2;
     d3 \<leftarrow> read_u8 data 3; d4 \<leftarrow> read_u8 data 4; d5 \<leftarrow> read_u8 data 5;
     d6 \<leftarrow> read_u8 data 6; d7 \<leftarrow> read_u8 data 7;
     Some (ucast d0 OR push_bit 8 (ucast d1) OR push_bit 16 (ucast d2) OR
           push_bit 24 (ucast d3) OR push_bit 32 (ucast d4) OR push_bit 40 (ucast d5) OR
           push_bit 48 (ucast d6) OR push_bit 56 (ucast d7))
   }"

definition bswap64 :: "u64 \<Rightarrow> u64" where
  "bswap64 x =
     push_bit 56 (x AND 0xFF) OR
     push_bit 40 (x AND 0xFF00) OR
     push_bit 24 (x AND 0xFF0000) OR
     push_bit 8 (x AND 0xFF000000) OR
     drop_bit 8 (x AND 0xFF00000000) OR
     drop_bit 24 (x AND 0xFF0000000000) OR
     drop_bit 40 (x AND 0xFF000000000000) OR
     drop_bit 56 (x AND 0xFF00000000000000)"

definition load64be_fast :: "u8 list \<Rightarrow> u64 option" where
  "load64be_fast data = do { x \<leftarrow> memcpy_u64 data; Some (bswap64 x) }"

text \<open>
  The locals shared by the three parsers: \<open>push_size = size_t(opcode - PUSH1 + 1)\<close>.
\<close>

definition push_size_of :: "push_opcode \<Rightarrow> nat" where
  "push_size_of opcode = push_opcode_value opcode - push_opcode_value PUSH1 + 1"

text \<open>
  The loop of \<open>orig\<close> and of \<open>orig_fast_load\<close>:
  \<^verbatim>\<open>for (size_t j = 0; j < push_size && (i + j) < code_size; ++j)
       data[leading_zeros + j] = code[i + j];\<close>
  as a recursion on \<open>j\<close> that passes \<open>data\<close> along.
\<close>

function orig_loop :: "nat \<Rightarrow> nat \<Rightarrow> nat \<Rightarrow> nat \<Rightarrow> u8 list \<Rightarrow> nat \<Rightarrow> u8 list \<Rightarrow> u8 list option"
  where
  "orig_loop push_size leading_zeros i code_size code j data =
     (if j < push_size \<and> i + j < code_size then
        (case read_u8 code (i + j) of
           None \<Rightarrow> None
         | Some b \<Rightarrow>
            (case write_u8 data (leading_zeros + j) b of
               None \<Rightarrow> None
             | Some data' \<Rightarrow> orig_loop push_size leading_zeros i code_size code (j + 1) data'))
      else Some data)"
  by pat_completeness auto
termination
  by (relation "measure (\<lambda>(push_size, leading_zeros, i, code_size, code, j, data). push_size - j)")
    auto

declare orig_loop.simps [simp del]

text \<open>
  \<open>orig\<close>: the parser with the end-of-code check. The result is the value returned
  and the new \<open>code_pos\<close> (the parameter is a reference to the caller's pointer).
\<close>

definition orig :: "push_opcode \<Rightarrow> nat \<Rightarrow> u8 list \<Rightarrow> (u64 \<times> nat) option" where
  "orig opcode code_pos code =
     (let code_size = length code;
          push_size = push_size_of opcode;
          data = replicate 8 0;
          leading_zeros = 8 - push_size;
          i = code_pos + 1
      in do {
        data' \<leftarrow> orig_loop push_size leading_zeros i code_size code 0 data;
        v \<leftarrow> load64be data';
        Some (v, code_pos + push_size)
      })"

definition orig_fast_load :: "push_opcode \<Rightarrow> nat \<Rightarrow> u8 list \<Rightarrow> (u64 \<times> nat) option" where
  "orig_fast_load opcode code_pos code =
     (let code_size = length code;
          push_size = push_size_of opcode;
          data = replicate 8 0;
          leading_zeros = 8 - push_size;
          i = code_pos + 1
      in do {
        data' \<leftarrow> orig_loop push_size leading_zeros i code_size code 0 data;
        v \<leftarrow> load64be_fast data';
        Some (v, code_pos + push_size)
      })"

text \<open>
  \<open>orig_noend\<close>: the same parser without the end-of-code check; its loop runs
  \<open>push_size\<close> times whatever the length of the code.
\<close>

function orig_noend_loop :: "nat \<Rightarrow> nat \<Rightarrow> nat \<Rightarrow> u8 list \<Rightarrow> nat \<Rightarrow> u8 list \<Rightarrow> u8 list option"
  where
  "orig_noend_loop push_size leading_zeros i code j data =
     (if j < push_size then
        (case read_u8 code (i + j) of
           None \<Rightarrow> None
         | Some b \<Rightarrow>
            (case write_u8 data (leading_zeros + j) b of
               None \<Rightarrow> None
             | Some data' \<Rightarrow> orig_noend_loop push_size leading_zeros i code (j + 1) data'))
      else Some data)"
  by pat_completeness auto
termination
  by (relation "measure (\<lambda>(push_size, leading_zeros, i, code, j, data). push_size - j)") auto

declare orig_noend_loop.simps [simp del]

definition orig_noend :: "push_opcode \<Rightarrow> nat \<Rightarrow> u8 list \<Rightarrow> (u64 \<times> nat) option" where
  "orig_noend opcode code_pos code =
     (let push_size = push_size_of opcode;
          data = replicate 8 0;
          leading_zeros = 8 - push_size;
          i = code_pos + 1
      in do {
        data' \<leftarrow> orig_noend_loop push_size leading_zeros i code 0 data;
        v \<leftarrow> load64be data';
        Some (v, code_pos + push_size)
      })"

subsection \<open>Reading the parsers' results\<close>

text \<open>
  The number a byte list denotes when read most significant byte first. It is what
  ``big-endian'' means in the statements below; \<open>unat_load64be\<close> shows that
  \<open>load64be\<close> computes it on a buffer of eight bytes.
\<close>

definition be_nat :: "u8 list \<Rightarrow> nat" where
  "be_nat bytes = foldl (\<lambda>acc b. 256 * acc + unat b) 0 bytes"

text \<open>
  The \<open>n\<close> bytes that follow the opcode at \<open>code_pos\<close>, where the code is read as if
  zero bytes followed its end.
\<close>

definition immediate_bytes :: "nat \<Rightarrow> nat \<Rightarrow> u8 list \<Rightarrow> u8 list" where
  "immediate_bytes n code_pos code = take n (drop (code_pos + 1) code @ replicate n 0)"

text \<open>
  The inline immediate as the specification words it: ``read up to 8 bytes big-endian
  (zero-padded left if code ends early) into the inline argument; advance \<open>i\<close> by
  \<open>n\<close>''. The bytes read are the at most \<open>n\<close> bytes that the code still has after
  the opcode; padding them with zero bytes on the left leaves the number they denote
  unchanged.
\<close>

definition inline_immediate_spec :: "nat \<Rightarrow> nat \<Rightarrow> u8 list \<Rightarrow> nat \<times> nat" where
  "inline_immediate_spec n i code = (be_nat (take n (drop (i + 1) code)), i + n)"

text \<open>Eight bytes put together, the first argument least significant.\<close>

definition bytes_le :: "u8 \<Rightarrow> u8 \<Rightarrow> u8 \<Rightarrow> u8 \<Rightarrow> u8 \<Rightarrow> u8 \<Rightarrow> u8 \<Rightarrow> u8 \<Rightarrow> u64" where
  "bytes_le d0 d1 d2 d3 d4 d5 d6 d7 =
     ucast d0 OR push_bit 8 (ucast d1) OR push_bit 16 (ucast d2) OR
     push_bit 24 (ucast d3) OR push_bit 32 (ucast d4) OR push_bit 40 (ucast d5) OR
     push_bit 48 (ucast d6) OR push_bit 56 (ucast d7)"

section \<open>The interpreter's entry point (lib/evmone/execution.cpp)\<close>

text \<open>
  \<open>execute\<close> analyses the code, builds an execution state and runs the dispatch loop
  over the instructions the analysis produced; then it makes the result from the final
  state. The file declares neither the types it works on nor the analyzer and the
  instruction functions: these come from \<open>analysis.hpp\<close>, \<open>execution.hpp\<close> and the EVMC
  headers, which are not among the sources. The types are modelled here from the
  specification; the analyzer and the table of instruction functions are parameters of
  \<open>execute\<close>. What is proved about the code of \<open>execute\<close> alone holds for every
  analyzer and every instruction function; where a property also rests on what the
  instruction functions do, that is stated as the specification describes them.
\<close>

subsection \<open>Types\<close>

type_synonym int64 = "64 word"
type_synonym uint256 = "256 word"

text \<open>
  \<open>int64\<close> is a 64-bit word that is read as a signed number (by \<open>sint\<close>) wherever its
  order matters.
\<close>

text \<open>
  Modelled from the spec: the status codes of the EVMC interface (\<open>evmc_status_code\<close>),
  the ones section 3 of the specification lists for the \<open>status\<close> of the execution
  state.
\<close>

datatype evmc_status_code =
    EVMC_SUCCESS | EVMC_REVERT | EVMC_OUT_OF_GAS | EVMC_STACK_UNDERFLOW | EVMC_STACK_OVERFLOW
  | EVMC_INVALID_INSTRUCTION | EVMC_BAD_JUMP_DESTINATION | EVMC_INVALID_MEMORY_ACCESS
  | EVMC_CALL_DEPTH_EXCEEDED | EVMC_STATIC_MODE_VIOLATION | EVMC_PRECOMPILE_FAILURE
  | EVMC_UNDEFINED_INSTRUCTION

text \<open>Modelled from the spec: the revisions of section 6 (\<open>evmc_revision\<close>).\<close>

datatype evmc_revision =
    EVMC_FRONTIER | EVMC_HOMESTEAD | EVMC_TANGERINE_WHISTLE | EVMC_SPURIOUS_DRAGON
  | EVMC_BYZANTIUM | EVMC_CONSTANTINOPLE | EVMC_PETERSBURG | EVMC_ISTANBUL

text \<open>
  Modelled from the spec: the message of section 6 (\<open>evmc_message\<close>). \<open>transfer_value\<close>
  is the field the specification calls \<open>value\<close>. \<open>execute\<close> reads \<open>gas\<close> only.
\<close>

datatype evmc_call_kind = EVMC_CALL | EVMC_DELEGATECALL | EVMC_CALLCODE | EVMC_CREATE | EVMC_CREATE2

record evmc_message =
  kind :: evmc_call_kind
  flags :: "32 word"
  depth :: "32 word"
  gas :: int64
  destination :: "160 word"
  sender :: "160 word"
  input_data :: "u8 list"
  transfer_value :: uint256
  create2_salt :: uint256

text \<open>
  Modelled from the spec: the argument of a pre-decoded instruction (section 3) is
  nothing, a small inline immediate, an index into the argument pool, or the header of
  a basic block.
\<close>

record block_info =
  gas_cost :: int
  stack_req :: int
  stack_max_growth :: int

datatype instr_argument =
    No_argument | Small_push_value u64 | Push_data nat | Block_header block_info

text \<open>
  Modelled from the spec: the execution state (section 3, and the fields that \<open>execute\<close>
  assigns). \<open>next_instr\<close> is a pointer into the instruction vector of the analysis:
  \<open>Some k\<close> points at the instruction of index \<open>k\<close>, \<open>None\<close> is the null pointer.
  \<open>rev'\<close> is the field \<open>rev\<close>. The state of the C++ code also holds a pointer to the
  analysis; the model passes the instructions to the loop next to the state instead,
  since the instructions hold functions on states.
\<close>

record 'h execution_state =
  next_instr :: "nat option"
  status :: evmc_status_code
  gas_left :: int64
  stack :: "uint256 list"
  memory :: "u8 list"
  output_offset :: nat
  output_size :: nat
  return_data :: "u8 list"
  msg :: evmc_message
  code :: "u8 list"
  code_size :: nat
  host :: 'h
  rev' :: evmc_revision

type_synonym 'h exec_fn = "'h execution_state \<Rightarrow> instr_argument \<Rightarrow> 'h execution_state"

text \<open>
  Modelled from the spec: a pre-decoded instruction is a pair of the function that
  implements the opcode and its argument; an analysis holds the instruction vector,
  the argument pool and the jump destinations; the opcode table of a revision gives
  the function of every opcode.
\<close>

record 'h instr_info =
  fn :: "'h exec_fn"
  arg :: instr_argument

record 'h code_analysis =
  instrs :: "'h instr_info list"
  args_storage :: "uint256 list"
  jumpdest_offsets :: "nat list"

type_synonym 'h exec_fn_table = "u8 \<Rightarrow> 'h exec_fn"

text \<open>
  Modelled from the spec: the result (section 6) is the status code, the gas left and
  the output bytes. \<open>result_gas_left\<close> is the field \<open>gas_left\<close> of the result.
\<close>

record evmc_result =
  status_code :: evmc_status_code
  result_gas_left :: int64
  output_data :: "u8 list"

text \<open>
  Two accesses of \<open>execute\<close> can leave a buffer, which is undefined behaviour in C++:
  the read of \<open>*state->next_instr\<close> when the pointer is outside the instruction vector,
  and the copy of the output when the output window is outside the memory. The model
  reports them as a \<open>fault\<close>.
\<close>

datatype fault = Instruction_out_of_range | Output_out_of_range

subsection \<open>The result\<close>

text \<open>
  Modelled from the spec: \<open>evmc::make_result\<close> belongs to the EVMC library. From
  (status, gas left, output pointer, output size) it makes the result that holds a copy
  of the \<open>output_size\<close> bytes at the pointer; with size 0 nothing is read. The pointer
  is \<open>&state->memory[state->output_offset]\<close>, so the model takes the memory and the
  offset.
\<close>

definition make_result :: "evmc_status_code \<Rightarrow> int64 \<Rightarrow> u8 list \<Rightarrow> nat \<Rightarrow> nat \<Rightarrow> fault + evmc_result"
  where
  "make_result st g mem out_offset out_size =
     (if out_size = 0 then Inr \<lparr>status_code = st, result_gas_left = g, output_data = []\<rparr>
      else if out_offset + out_size \<le> length mem
        then Inr \<lparr>status_code = st, result_gas_left = g,
               output_data = take out_size (drop out_offset mem)\<rparr>
      else Inl Output_out_of_range)"

subsection \<open>\<open>execute\<close>\<close>

text \<open>
  The state as \<open>execute\<close> sets it up before the loop:
  \<^verbatim>\<open>auto state = std::make_unique<execution_state>();
   state->next_instr = &state->analysis->instrs[0];
   state->msg = msg;  state->code = code;  state->code_size = code_size;
   state->host = evmc::HostContext{ctx};
   state->gas_left = msg->gas;  state->rev = rev;\<close>
  The fields that \<open>execute\<close> does not assign keep the values of a new
  \<open>execution_state\<close>. Its declaration (in \<open>execution.hpp\<close>) is not among the sources, so
  the new state is a parameter, \<open>fresh\<close>.
\<close>

definition initial_state ::
  "'h execution_state \<Rightarrow> 'h \<Rightarrow> evmc_revision \<Rightarrow> evmc_message \<Rightarrow> u8 list \<Rightarrow> 'h execution_state"
  where
  "initial_state fresh ctx revision message bytecode =
     fresh\<lparr>next_instr := Some 0, msg := message, code := bytecode,
       code_size := length bytecode, host := ctx, gas_left := gas message, rev' := revision\<rparr>"

text \<open>
  One iteration of the dispatch loop, with the cursor at \<open>pc\<close>:
  \<^verbatim>\<open>const auto& instr = *state->next_instr;
   ++state->next_instr;
   instr.fn(*state, instr.arg);\<close>
\<close>

definition dispatch_step :: "'h instr_info list \<Rightarrow> nat \<Rightarrow> 'h execution_state \<Rightarrow> fault + 'h execution_state"
  where
  "dispatch_step instructions pc state =
     (if pc < length instructions then
        (let instr = instructions ! pc;
             state' = state\<lparr>next_instr := Some (pc + 1)\<rparr>
         in Inr (fn instr state' (arg instr)))
      else Inl Instruction_out_of_range)"

text \<open>
  The loop \<^verbatim>\<open>while (state->next_instr) { ... }\<close>. Nothing in \<open>execute\<close> bounds the
  number of iterations, so the loop is a partial function: \<open>None\<close> is a run that never
  leaves the loop.
\<close>

partial_function (option) dispatch_loop ::
  "'h instr_info list \<Rightarrow> 'h execution_state \<Rightarrow> (fault + 'h execution_state) option"
  where
  "dispatch_loop instructions state =
     (case next_instr state of
        None \<Rightarrow> Some (Inr state)
      | Some pc \<Rightarrow>
         (case dispatch_step instructions pc state of
            Inl e \<Rightarrow> Some (Inl e)
          | Inr state' \<Rightarrow> dispatch_loop instructions state'))"

declare dispatch_loop.simps [code]

text \<open>
  \<open>execute\<close> itself. The first parameter of the C++ function (the \<open>evmc_instance\<close>) is
  unnamed and unused. \<open>op_table\<close> and \<open>analyze\<close> are the table and the analyzer that
  the C++ code refers to by name, and \<open>fresh\<close> is the new execution state.
\<close>

definition execute ::
  "(evmc_revision \<Rightarrow> 'h exec_fn_table) \<Rightarrow>
   ('h exec_fn_table \<Rightarrow> evmc_revision \<Rightarrow> u8 list \<Rightarrow> 'h code_analysis) \<Rightarrow>
   'h execution_state \<Rightarrow> 'h \<Rightarrow> evmc_revision \<Rightarrow> evmc_message \<Rightarrow> u8 list \<Rightarrow>
   (fault + evmc_result) option"
  where
  "execute op_table analyze fresh ctx revision message bytecode =
     (let analysis = analyze (op_table revision) revision bytecode;
          state = initial_state fresh ctx revision message bytecode
      in case dispatch_loop (instrs analysis) state of
           None \<Rightarrow> None
         | Some (Inl e) \<Rightarrow> Some (Inl e)
         | Some (Inr state') \<Rightarrow>
            (let gas_left' =
               (if status state' = EVMC_SUCCESS \<or> status state' = EVMC_REVERT
                then gas_left state' else 0)
             in Some (make_result (status state') gas_left' (memory state')
                  (output_offset state') (output_size state'))))"

subsection \<open>The loop as a relation\<close>

text \<open>
  The loop once more, as a relation between the state at its head and the outcome of a
  run that ends: a rule for the exit of the loop, one for an iteration, one for a
  fault. \<open>dispatch_run_iff\<close> shows that the relation holds exactly where the function
  above returns the outcome.
\<close>

inductive dispatch_run ::
  "'h instr_info list \<Rightarrow> 'h execution_state \<Rightarrow> fault + 'h execution_state \<Rightarrow> bool"
  for instructions :: "'h instr_info list"
  where
  halt: "next_instr state = None \<Longrightarrow> dispatch_run instructions state (Inr state)"
| fault: "next_instr state = Some pc \<Longrightarrow> dispatch_step instructions pc state = Inl e \<Longrightarrow>
    dispatch_run instructions state (Inl e)"
| iterate: "next_instr state = Some pc \<Longrightarrow> dispatch_step instructions pc state = Inr state' \<Longrightarrow>
    dispatch_run instructions state' outcome \<Longrightarrow> dispatch_run instructions state outcome"

code_pred dispatch_run .

text \<open>
  The states the loop passes through: \<open>dispatch_reaches instructions state s\<close> holds
  when the loop started in \<open>state\<close> is at its head in \<open>s\<close> after some number of
  iterations.
\<close>

inductive dispatch_reaches ::
  "'h instr_info list \<Rightarrow> 'h execution_state \<Rightarrow> 'h execution_state \<Rightarrow> bool"
  for instructions :: "'h instr_info list" and state :: "'h execution_state"
  where
  start: "dispatch_reaches instructions state state"
| step: "dispatch_reaches instructions state s \<Longrightarrow> next_instr s = Some pc \<Longrightarrow>
    dispatch_step instructions pc s = Inr s' \<Longrightarrow> dispatch_reaches instructions state s'"

code_pred dispatch_reaches .

subsection \<open>The calls of \<open>execute\<close>, in order\<close>

text \<open>
  A function of the logic cannot tell how often \<open>execute\<close> calls the analyzer, nor
  what it does before and after, so \<open>execute\<close> is given a second time as a machine
  that makes one call of the C++ code per step and names it. The control points are
  the entry of the function, the point after line 21
  (\<^verbatim>\<open>auto analysis = analyze(op_table[rev], rev, code, code_size);\<close>), the head of the
  loop (reached first when lines 23 to 31 have built the state), and the return.
  \<open>execute_calls_returned\<close> shows that the machine returns exactly what the function
  \<open>execute\<close> returns.
\<close>

datatype 'h control =
    At_entry
  | Analysed "'h code_analysis"
  | In_loop "'h code_analysis" "'h execution_state"
  | Returned "fault + evmc_result"

text \<open>
  The calls: of the analyzer, on a revision and a code (and the opcode table of that
  revision); of the constructor of the state; of the function of the instruction at an
  index; of \<open>make_result\<close>. \<open>Fetch_out_of_range\<close> is no call: it is the read of an
  instruction outside the instruction vector.
\<close>

datatype call =
    Analyzer_call evmc_revision "u8 list"
  | State_construction
  | Instruction_call nat
  | Fetch_out_of_range nat
  | Result_construction

fun is_analyzer_call :: "call \<Rightarrow> bool" where
  "is_analyzer_call (Analyzer_call revision bytecode) = True"
| "is_analyzer_call State_construction = False"
| "is_analyzer_call (Instruction_call pc) = False"
| "is_analyzer_call (Fetch_out_of_range pc) = False"
| "is_analyzer_call Result_construction = False"

fun is_state_construction :: "call \<Rightarrow> bool" where
  "is_state_construction (Analyzer_call revision bytecode) = False"
| "is_state_construction State_construction = True"
| "is_state_construction (Instruction_call pc) = False"
| "is_state_construction (Fetch_out_of_range pc) = False"
| "is_state_construction Result_construction = False"

fun execute_step ::
  "(evmc_revision \<Rightarrow> 'h exec_fn_table) \<Rightarrow>
   ('h exec_fn_table \<Rightarrow> evmc_revision \<Rightarrow> u8 list \<Rightarrow> 'h code_analysis) \<Rightarrow>
   'h execution_state \<Rightarrow> 'h \<Rightarrow> evmc_revision \<Rightarrow> evmc_message \<Rightarrow> u8 list \<Rightarrow>
   'h control \<Rightarrow> (call \<times> 'h control) option"
  where
  "execute_step op_table analyze fresh ctx revision message bytecode At_entry =
     Some (Analyzer_call revision bytecode,
           Analysed (analyze (op_table revision) revision bytecode))"
| "execute_step op_table analyze fresh ctx revision message bytecode (Analysed analysis) =
     Some (State_construction,
           In_loop analysis (initial_state fresh ctx revision message bytecode))"
| "execute_step op_table analyze fresh ctx revision message bytecode (In_loop analysis state) =
     (case next_instr state of
        None \<Rightarrow>
         (let gas_left' =
            (if status state = EVMC_SUCCESS \<or> status state = EVMC_REVERT
             then gas_left state else 0)
          in Some (Result_construction,
                   Returned (make_result (status state) gas_left' (memory state)
                     (output_offset state) (output_size state))))
      | Some pc \<Rightarrow>
         (case dispatch_step (instrs analysis) pc state of
            Inl e \<Rightarrow> Some (Fetch_out_of_range pc, Returned (Inl e))
          | Inr state' \<Rightarrow> Some (Instruction_call pc, In_loop analysis state')))"
| "execute_step op_table analyze fresh ctx revision message bytecode (Returned res) = None"

text \<open>
  The first \<open>n\<close> steps of a machine from a control point: the calls made, in order,
  and the control point reached. A machine that has no step left stays where it is.
\<close>

fun run_steps :: "('c \<Rightarrow> ('e \<times> 'c) option) \<Rightarrow> nat \<Rightarrow> 'c \<Rightarrow> 'e list \<times> 'c" where
  "run_steps step 0 c = ([], c)"
| "run_steps step (Suc n) c =
     (case step c of
        None \<Rightarrow> ([], c)
      | Some (e, c') \<Rightarrow> (case run_steps step n c' of (es, c'') \<Rightarrow> (e # es, c'')))"

text \<open>
  What a control point holds: the state, at the head of the loop; the result, after
  the return.
\<close>

fun loop_state :: "'h control \<Rightarrow> 'h execution_state option" where
  "loop_state At_entry = None"
| "loop_state (Analysed analysis) = None"
| "loop_state (In_loop analysis state) = Some state"
| "loop_state (Returned res) = None"

fun returned :: "'h control \<Rightarrow> (fault + evmc_result) option" where
  "returned At_entry = None"
| "returned (Analysed analysis) = None"
| "returned (In_loop analysis state) = None"
| "returned (Returned res) = Some res"

definition execute_calls ::
  "(evmc_revision \<Rightarrow> 'h exec_fn_table) \<Rightarrow>
   ('h exec_fn_table \<Rightarrow> evmc_revision \<Rightarrow> u8 list \<Rightarrow> 'h code_analysis) \<Rightarrow>
   'h execution_state \<Rightarrow> 'h \<Rightarrow> evmc_revision \<Rightarrow> evmc_message \<Rightarrow> u8 list \<Rightarrow>
   nat \<Rightarrow> call list \<times> 'h control"
  where
  "execute_calls op_table analyze fresh ctx revision message bytecode n =
     run_steps (execute_step op_table analyze fresh ctx revision message bytecode) n At_entry"

subsection \<open>What the specification says of the instruction functions\<close>

text \<open>
  Modelled from the spec: the instruction functions (the entries of \<open>op_table\<close>) are
  not among the sources. Of the output window the specification says that it is ``set
  by \<open>RETURN\<close>/\<open>REVERT\<close>'' (section 3), that \<open>RETURN\<close> ends the run with status success
  and \<open>REVERT\<close> with status revert (section 4.5), and that terminating instructions
  clear the cursor (section 2). So an instruction that is called on a state with an
  empty window leaves the window empty, unless it ends the run with status success or
  revert. The instruction is called with its own argument, as the loop calls it.
\<close>

definition leaves_output_to_return :: "'h instr_info \<Rightarrow> bool" where
  "leaves_output_to_return instr \<longleftrightarrow>
     (\<forall>s. output_size s = 0 \<and> next_instr s \<noteq> None \<longrightarrow>
        output_size (fn instr s (arg instr)) = 0 \<or>
        (status (fn instr s (arg instr)) = EVMC_SUCCESS \<or>
         status (fn instr s (arg instr)) = EVMC_REVERT) \<and>
        next_instr (fn instr s (arg instr)) = None)"

text \<open>
  Modelled from the spec: of the gas the specification says ``\<open>gas_left \<ge> 0\<close> on every
  successful step; on underflow the step fails with \<open>out_of_gas\<close>'' (section 3), that
  the block header and the instructions deduct their costs from \<open>gas_left\<close> (section
  4.4), and that \<open>gas_left\<close> ``is non-increasing'' (section 8). So an instruction that
  is called with a \<open>gas_left\<close> that is not negative does not raise it, and if it takes
  it below zero it ends the run. \<open>gas_left\<close> is read as a signed number.
\<close>

definition charges_gas :: "'h instr_info \<Rightarrow> bool" where
  "charges_gas instr \<longleftrightarrow>
     (\<forall>s. 0 \<le> sint (gas_left s) \<longrightarrow>
        sint (gas_left (fn instr s (arg instr))) \<le> sint (gas_left s) \<and>
        (sint (gas_left (fn instr s (arg instr))) < 0 \<longrightarrow>
           next_instr (fn instr s (arg instr)) = None))"

subsection \<open>Instruction functions for the examples\<close>

text \<open>
  The closed examples below need an opcode table and an analyzer to run. These are
  stand-ins, not the interpreter's own: \<open>example_push\<close> pushes its argument and leaves
  the cursor alone, \<open>example_jump\<close> pops the index of the next instruction,
  \<open>example_stop\<close> clears the cursor, and \<open>example_return\<close> stores one byte, makes it
  the output window and ends the run with status success. \<open>example_beginblock\<close> is the
  precheck of section 4.4 of the specification on a block header: it fails with out of
  gas, stack underflow or stack overflow, or else deducts the gas cost of the block.
  \<open>example_analyze\<close> emits one instruction per code byte and appends the instruction
  of opcode 0 (\<open>STOP\<close>); \<open>example_analyze_blocks\<close> puts a block header in front that
  costs 3 per code byte. \<open>example_fresh\<close> is a new state: status success, nothing on
  the stack, empty memory, an empty output window.
\<close>

definition example_push :: "unit exec_fn" where
  "example_push state a =
     (case a of Small_push_value v \<Rightarrow> state\<lparr>stack := ucast v # stack state\<rparr> | _ \<Rightarrow> state)"

definition example_jump :: "unit exec_fn" where
  "example_jump state a =
     (case stack state of
        [] \<Rightarrow> state\<lparr>next_instr := None, status := EVMC_STACK_UNDERFLOW\<rparr>
      | target # rest \<Rightarrow> state\<lparr>next_instr := Some (unat target), stack := rest\<rparr>)"

definition example_stop :: "unit exec_fn" where
  "example_stop state a = state\<lparr>next_instr := None\<rparr>"

definition example_return :: "unit exec_fn" where
  "example_return state a =
     state\<lparr>next_instr := None, status := EVMC_SUCCESS, memory := [0xAA],
       output_offset := 0, output_size := 1\<rparr>"

definition example_beginblock :: "unit exec_fn" where
  "example_beginblock state a =
     (case a of
        Block_header block \<Rightarrow>
          if sint (gas_left state) < gas_cost block
            then state\<lparr>next_instr := None, status := EVMC_OUT_OF_GAS\<rparr>
          else if int (length (stack state)) < stack_req block
            then state\<lparr>next_instr := None, status := EVMC_STACK_UNDERFLOW\<rparr>
          else if 1024 < int (length (stack state)) + stack_max_growth block
            then state\<lparr>next_instr := None, status := EVMC_STACK_OVERFLOW\<rparr>
          else state\<lparr>gas_left := gas_left state - word_of_int (gas_cost block)\<rparr>
      | _ \<Rightarrow> state)"

definition example_op_table :: "evmc_revision \<Rightarrow> unit exec_fn_table" where
  "example_op_table revision opcode =
     (if opcode = 0x00 then example_stop
      else if opcode = 0x56 then example_jump
      else if opcode = 0x5B then example_beginblock
      else if opcode = 0xF3 then example_return
      else example_push)"

definition example_analyze ::
  "unit exec_fn_table \<Rightarrow> evmc_revision \<Rightarrow> u8 list \<Rightarrow> unit code_analysis" where
  "example_analyze table revision bytecode =
     \<lparr>instrs = map (\<lambda>opcode. \<lparr>fn = table opcode, arg = Small_push_value (ucast opcode)\<rparr>) bytecode @
               [\<lparr>fn = table 0x00, arg = No_argument\<rparr>],
      args_storage = [], jumpdest_offsets = []\<rparr>"

definition example_analyze_blocks ::
  "unit exec_fn_table \<Rightarrow> evmc_revision \<Rightarrow> u8 list \<Rightarrow> unit code_analysis" where
  "example_analyze_blocks table revision bytecode =
     \<lparr>instrs =
        \<lparr>fn = table 0x5B,
          arg = Block_header \<lparr>gas_cost = 3 * int (length bytecode), stack_req = 0,
                  stack_max_growth = int (length bytecode)\<rparr>\<rparr> #
        instrs (example_analyze table revision bytecode),
      args_storage = [], jumpdest_offsets = []\<rparr>"

definition example_message :: evmc_message where
  "example_message = \<lparr>kind = EVMC_CALL, flags = 0, depth = 0, gas = 100, destination = 0,
     sender = 0, input_data = [], transfer_value = 0, create2_salt = 0\<rparr>"

definition example_fresh :: "unit execution_state" where
  "example_fresh =
     \<lparr>next_instr = None, status = EVMC_SUCCESS, gas_left = 0, stack = [], memory = [],
      output_offset = 0, output_size = 0, return_data = [], msg = example_message, code = [],
      code_size = 0, host = (), rev' = EVMC_FRONTIER\<rparr>"

section \<open>Properties of the push-data parsers\<close>

subsection \<open>Buffers and bits\<close>

lemma read_u8_Some [simp]: "k < length buf \<Longrightarrow> read_u8 buf k = Some (buf ! k)"
  by (simp add: read_u8_def)

lemma read_u8_None [simp]: "length buf \<le> k \<Longrightarrow> read_u8 buf k = None"
  by (simp add: read_u8_def)

lemma write_u8_Some [simp]: "k < length buf \<Longrightarrow> write_u8 buf k b = Some (buf[k := b])"
  by (simp add: write_u8_def)

lemma not_bit_u8: "8 \<le> n \<Longrightarrow> \<not> bit (d :: u8) n"
  using bit_imp_le_length [of d n] by auto

lemma mask_consts:
  "(0xFF :: u64) = mask 8"
  "(0xFF00 :: u64) = push_bit 8 (mask 8)"
  "(0xFF0000 :: u64) = push_bit 16 (mask 8)"
  "(0xFF000000 :: u64) = push_bit 24 (mask 8)"
  "(0xFF00000000 :: u64) = push_bit 32 (mask 8)"
  "(0xFF0000000000 :: u64) = push_bit 40 (mask 8)"
  "(0xFF000000000000 :: u64) = push_bit 48 (mask 8)"
  "(0xFF00000000000000 :: u64) = push_bit 56 (mask 8)"
  by (simp_all add: mask_eq_exp_minus_1)

lemma and_shifted_mask:
  fixes x :: u64
  shows "x AND push_bit k (mask 8) = push_bit k (take_bit 8 (drop_bit k x))"
  by (rule bit_word_eqI) (auto simp: bit_simps)

lemma byte_ranges:
  assumes "n < (64::nat)"
  obtains "n < 8" | "8 \<le> n" "n < 16" | "16 \<le> n" "n < 24" | "24 \<le> n" "n < 32"
    | "32 \<le> n" "n < 40" | "40 \<le> n" "n < 48" | "48 \<le> n" "n < 56" | "56 \<le> n" "n < 64"
  using assms by linarith

lemma bswap64_bytes_le:
  "bswap64 (bytes_le d0 d1 d2 d3 d4 d5 d6 d7) = bytes_le d7 d6 d5 d4 d3 d2 d1 d0"
proof (rule bit_word_eqI)
  fix n :: nat
  assume "n < LENGTH(64)"
  then have "n < 64" by simp
  then show "bit (bswap64 (bytes_le d0 d1 d2 d3 d4 d5 d6 d7)) n =
    bit (bytes_le d7 d6 d5 d4 d3 d2 d1 d0) n"
    apply (cases rule: byte_ranges)
    apply (simp_all add: bswap64_def mask_consts and_shifted_mask bytes_le_def bit_simps
        not_bit_u8 cong: conj_cong)
    apply auto
    done
qed

lemma load64be_bytes_le:
  "8 \<le> length data \<Longrightarrow>
   load64be data = Some (bytes_le (data ! 7) (data ! 6) (data ! 5) (data ! 4)
     (data ! 3) (data ! 2) (data ! 1) (data ! 0))"
  by (auto simp: load64be_def bytes_le_def read_u8_def)

lemma load64be_short: "length data < 8 \<Longrightarrow> load64be data = None"
  by (simp add: load64be_def)

lemma memcpy_u64_bytes_le:
  "8 \<le> length data \<Longrightarrow>
   memcpy_u64 data = Some (bytes_le (data ! 0) (data ! 1) (data ! 2) (data ! 3)
     (data ! 4) (data ! 5) (data ! 6) (data ! 7))"
  by (auto simp: memcpy_u64_def bytes_le_def read_u8_def)

lemma memcpy_u64_short: "length data < 8 \<Longrightarrow> memcpy_u64 data = None"
  by (simp add: memcpy_u64_def read_u8_def)

lemma load64be_fast_eq: "load64be_fast data = load64be data"
proof (cases "8 \<le> length data")
  case True
  then show ?thesis
    by (simp add: load64be_fast_def memcpy_u64_bytes_le load64be_bytes_le bswap64_bytes_le)
next
  case False
  then show ?thesis
    by (simp add: load64be_fast_def memcpy_u64_short load64be_short)
qed

lemma orig_loop_result:
  assumes "leading_zeros + push_size \<le> length data" and "csize \<le> length bytecode"
  shows "\<exists>data'. orig_loop push_size leading_zeros i csize bytecode j data = Some data' \<and>
    length data' = length data \<and>
    (\<forall>k<length data. data' ! k =
       (if leading_zeros + j \<le> k \<and> k < leading_zeros + push_size \<and>
           i + (k - leading_zeros) < csize
        then bytecode ! (i + (k - leading_zeros)) else data ! k))"
  using assms
proof (induction push_size leading_zeros i csize bytecode j data rule: orig_loop.induct)
  case (1 push_size leading_zeros i csize bytecode j data)
  show ?case
  proof (cases "j < push_size \<and> i + j < csize")
    case False
    then have "orig_loop push_size leading_zeros i csize bytecode j data = Some data"
      by (subst orig_loop.simps) (use False in auto)
    moreover have "\<forall>k<length data. data ! k =
       (if leading_zeros + j \<le> k \<and> k < leading_zeros + push_size \<and>
           i + (k - leading_zeros) < csize
        then bytecode ! (i + (k - leading_zeros)) else data ! k)"
      using False by auto
    ultimately show ?thesis by simp
  next
    case True
    let ?b = "bytecode ! (i + j)"
    let ?data1 = "data[leading_zeros + j := ?b]"
    have rd: "read_u8 bytecode (i + j) = Some ?b"
      using True "1.prems" by simp
    have wr: "write_u8 data (leading_zeros + j) ?b = Some ?data1"
      using True "1.prems" by simp
    have unfold: "orig_loop push_size leading_zeros i csize bytecode j data =
      orig_loop push_size leading_zeros i csize bytecode (j + 1) ?data1"
      by (subst orig_loop.simps) (use True rd wr in simp)
    from "1.IH" [OF True rd wr] "1.prems"
    obtain data' where d: "orig_loop push_size leading_zeros i csize bytecode (j + 1) ?data1 = Some data'"
      "length data' = length data"
      "\<forall>k<length data. data' ! k =
       (if leading_zeros + (j + 1) \<le> k \<and> k < leading_zeros + push_size \<and>
           i + (k - leading_zeros) < csize
        then bytecode ! (i + (k - leading_zeros)) else ?data1 ! k)"
      by auto
    have "\<forall>k<length data. data' ! k =
       (if leading_zeros + j \<le> k \<and> k < leading_zeros + push_size \<and>
           i + (k - leading_zeros) < csize
        then bytecode ! (i + (k - leading_zeros)) else data ! k)"
    proof (intro allI impI)
      fix k assume k: "k < length data"
      show "data' ! k =
       (if leading_zeros + j \<le> k \<and> k < leading_zeros + push_size \<and>
           i + (k - leading_zeros) < csize
        then bytecode ! (i + (k - leading_zeros)) else data ! k)"
      proof (cases "k = leading_zeros + j")
        case True
        then show ?thesis using d(3) k \<open>j < push_size \<and> i + j < csize\<close> by simp
      next
        case False
        then show ?thesis using d(3) k by auto
      qed
    qed
    with d unfold show ?thesis by simp
  qed
qed

lemma ucast_or_push8:
  fixes d :: u8 and r :: u64
  shows "ucast d OR push_bit 8 r = ucast d + 256 * r"
proof -
  have "ucast d + push_bit 8 r = ucast d OR push_bit 8 r"
    by (rule disjunctive_add) (auto simp: bit_simps dest: bit_imp_le_length)
  then show ?thesis by (simp add: push_bit_eq_mult mult.commute)
qed

lemma bytes_le_horner:
  "bytes_le d0 d1 d2 d3 d4 d5 d6 d7 =
     ucast d0 + 256 * (ucast d1 + 256 * (ucast d2 + 256 * (ucast d3 + 256 * (ucast d4 +
       256 * (ucast d5 + 256 * (ucast d6 + 256 * ucast d7))))))"
proof -
  have "bytes_le d0 d1 d2 d3 d4 d5 d6 d7 =
    ucast d0 OR push_bit 8 (ucast d1 OR push_bit 8 (ucast d2 OR push_bit 8 (ucast d3 OR
      push_bit 8 (ucast d4 OR push_bit 8 (ucast d5 OR push_bit 8 (ucast d6 OR push_bit 8 (ucast d7)))))))"
    by (simp add: bytes_le_def push_bit_or push_bit_push_bit)
  also have "\<dots> = ucast d0 + 256 * (ucast d1 + 256 * (ucast d2 + 256 * (ucast d3 + 256 * (ucast d4 +
       256 * (ucast d5 + 256 * (ucast d6 + 256 * ucast d7))))))"
    by (simp only: ucast_or_push8)
  finally show ?thesis .
qed

lemma unat_bytes_le:
  "unat (bytes_le d0 d1 d2 d3 d4 d5 d6 d7) =
     unat d0 + 256 * (unat d1 + 256 * (unat d2 + 256 * (unat d3 + 256 * (unat d4 +
       256 * (unat d5 + 256 * (unat d6 + 256 * unat d7))))))"
  (is "_ = ?N")
proof -
  have b: "unat d < 256" for d :: u8
    using unsigned_less [of d] by simp
  have "?N < 2 ^ 64"
    using b [of d0] b [of d1] b [of d2] b [of d3] b [of d4] b [of d5] b [of d6] b [of d7]
    by simp
  moreover have "bytes_le d0 d1 d2 d3 d4 d5 d6 d7 = word_of_nat ?N"
    by (simp add: bytes_le_horner)
  ultimately show ?thesis
    by (simp add: unat_of_nat del: of_nat_add of_nat_mult)
qed

lemma push_size_of_bounds: "1 \<le> push_size_of opcode" "push_size_of opcode \<le> 8"
  by (cases opcode; simp add: push_size_of_def)+

lemma be_nat_snoc: "be_nat (bs @ [b]) = 256 * be_nat bs + unat b"
  by (simp add: be_nat_def)

lemma be_nat_zeros: "be_nat (replicate k 0 @ bs) = be_nat bs"
proof (induction bs rule: rev_induct)
  case Nil
  show ?case by (induction k) (simp_all add: be_nat_def replicate_append_same)
next
  case (snoc b bs)
  have "be_nat (replicate k 0 @ bs @ [b]) = be_nat ((replicate k 0 @ bs) @ [b])" by simp
  also have "\<dots> = 256 * be_nat (replicate k 0 @ bs) + unat b" by (rule be_nat_snoc)
  finally show ?case using snoc by (simp add: be_nat_snoc)
qed

lemma be_nat_less: "be_nat bs < 256 ^ length bs"
proof (induction bs rule: rev_induct)
  case Nil
  show ?case by (simp add: be_nat_def)
next
  case (snoc b bs)
  have "unat b < 256" using unsigned_less [of b] by simp
  then have "256 * be_nat bs + unat b < 256 * (be_nat bs + 1)"
    by simp
  also have "\<dots> \<le> 256 * 256 ^ length bs"
  proof (rule mult_le_mono2)
    show "be_nat bs + 1 \<le> 256 ^ length bs"
      using snoc by simp
  qed
  finally show ?case by (simp add: be_nat_snoc)
qed

lemma list8:
  assumes "length xs = 8"
  obtains a b c d e f g h where "xs = [a, b, c, d, e, f, g, h]"
proof -
  from assms have "length xs = Suc (Suc (Suc (Suc (Suc (Suc (Suc (Suc 0)))))))"
    by simp
  then show ?thesis
    using that by (auto simp: length_Suc_conv)
qed

lemma unat_load64be:
  assumes "length data = 8"
  shows "\<exists>v. load64be data = Some v \<and> unat v = be_nat data"
proof -
  from assms obtain a b c d e f g h where data: "data = [a, b, c, d, e, f, g, h]"
    by (rule list8)
  have "load64be data = Some (bytes_le h g f e d c b a)"
    by (simp add: data load64be_bytes_le)
  moreover have "unat (bytes_le h g f e d c b a) = be_nat data"
    by (simp add: data be_nat_def unat_bytes_le)
  ultimately show ?thesis by simp
qed

lemma orig_loop_closed:
  assumes "push_size \<le> 8"
  shows "orig_loop push_size (8 - push_size) i (length bytecode) bytecode 0 (replicate 8 0) =
    Some (replicate (8 - push_size) 0 @ take push_size (drop i bytecode @ replicate push_size 0))"
proof -
  let ?lz = "8 - push_size"
  let ?r = "replicate ?lz 0 @ take push_size (drop i bytecode @ replicate push_size 0)"
  from assms have "?lz + push_size \<le> length (replicate 8 (0::u8))"
    by simp
  from orig_loop_result [OF this order_refl, of i bytecode 0]
  obtain data' where d1: "orig_loop push_size ?lz i (length bytecode) bytecode 0 (replicate 8 0) = Some data'"
    and d2: "length data' = 8"
    and d3': "\<forall>k<length (replicate 8 (0::u8)). data' ! k =
       (if ?lz + 0 \<le> k \<and> k < ?lz + push_size \<and> i + (k - ?lz) < length bytecode
        then bytecode ! (i + (k - ?lz)) else replicate 8 0 ! k)"
    by auto
  have d3: "data' ! k =
       (if ?lz \<le> k \<and> i + (k - ?lz) < length bytecode then bytecode ! (i + (k - ?lz)) else 0)"
    if "k < 8" for k
    using d3' that assms by auto
  have "data' = ?r"
  proof (rule nth_equalityI)
    show "length data' = length ?r"
      using d2 assms by simp
  next
    fix k assume "k < length data'"
    then have k: "k < 8" using d2 by simp
    show "data' ! k = ?r ! k"
    proof (cases "k < ?lz")
      case True
      then show ?thesis using d3 [OF k] by (simp add: nth_append)
    next
      case False
      then have "?r ! k = (drop i bytecode @ replicate push_size 0) ! (k - ?lz)"
        using k assms by (simp add: nth_append)
      also have "\<dots> = (if i + (k - ?lz) < length bytecode then bytecode ! (i + (k - ?lz)) else 0)"
        using k assms False by (auto simp: nth_append)
      finally show ?thesis using d3 [OF k] False by simp
    qed
  qed
  with d1 show ?thesis by simp
qed

lemma orig_noend_loop_eq:
  assumes "i + push_size \<le> csize"
  shows "orig_noend_loop push_size leading_zeros i bytecode j data =
    orig_loop push_size leading_zeros i csize bytecode j data"
  using assms
proof (induction push_size leading_zeros i csize bytecode j data rule: orig_loop.induct)
  case (1 push_size leading_zeros i csize bytecode j data)
  show ?case
  proof (cases "j < push_size")
    case False
    then show ?thesis
      by (subst orig_noend_loop.simps, subst orig_loop.simps) simp
  next
    case True
    with "1.prems" have g: "j < push_size \<and> i + j < csize" by simp
    have "orig_noend_loop push_size leading_zeros i bytecode (j + 1) data' =
      orig_loop push_size leading_zeros i csize bytecode (j + 1) data'"
      if "read_u8 bytecode (i + j) = Some b" and "write_u8 data (leading_zeros + j) b = Some data'"
      for b data'
      using "1.IH" [OF g that] "1.prems" by simp
    then show ?thesis
      by (subst orig_noend_loop.simps, subst orig_loop.simps)
        (use g in \<open>auto split: option.splits\<close>)
  qed
qed

lemma orig_eq:
  "orig opcode code_pos bytecode =
     map_option (\<lambda>v. (v, code_pos + push_size_of opcode))
       (load64be (replicate (8 - push_size_of opcode) 0 @
          immediate_bytes (push_size_of opcode) code_pos bytecode))"
  using push_size_of_bounds [of opcode]
  by (cases "load64be (replicate (8 - push_size_of opcode) 0 @
          immediate_bytes (push_size_of opcode) code_pos bytecode)")
    (simp_all add: orig_def orig_loop_closed immediate_bytes_def Let_def)

lemma orig_fast_load_eq: "orig_fast_load opcode code_pos bytecode = orig opcode code_pos bytecode"
  by (simp add: orig_fast_load_def orig_def load64be_fast_eq)

lemma orig_noend_eq:
  assumes "code_pos + 1 + push_size_of opcode \<le> length bytecode"
  shows "orig_noend opcode code_pos bytecode = orig opcode code_pos bytecode"
  using assms by (simp add: orig_noend_def orig_def orig_noend_loop_eq Let_def)

lemma orig_value:
  "\<exists>v. orig opcode code_pos bytecode = Some (v, code_pos + push_size_of opcode) \<and>
     unat v = be_nat (immediate_bytes (push_size_of opcode) code_pos bytecode)"
proof -
  let ?n = "push_size_of opcode"
  let ?data = "replicate (8 - ?n) 0 @ immediate_bytes ?n code_pos bytecode"
  have len: "length (immediate_bytes ?n code_pos bytecode) = ?n"
    by (simp add: immediate_bytes_def)
  then have "length ?data = 8"
    using push_size_of_bounds [of opcode] by simp
  then obtain v where "load64be ?data = Some v" "unat v = be_nat ?data"
    using unat_load64be by blast
  then show ?thesis
    by (simp add: orig_eq be_nat_zeros)
qed

subsection \<open>The claims about the push-data parsers\<close>

text \<open>
  C3, as the specification states it: for every \<open>PUSH1\<close> .. \<open>PUSH8\<close> at any position of
  any code, the parser reads up to 8 bytes big-endian, zero-padded on the left if the
  code ends early, and advances the position by the push data size. The statement
  fails where the code ends inside the immediate: for \<open>PUSH2\<close> followed by the single
  byte \<open>0xAB\<close>, \<open>orig\<close> returns \<open>0xAB00\<close>, while the bytes that are there, padded
  on the left, denote \<open>0xAB\<close>.
\<close>

theorem orig_truncated_immediate_counterexample:
  "orig PUSH2 0 [1, 0xAB] = Some (0xAB00, 2) \<and>
   fst (inline_immediate_spec (push_size_of PUSH2) 0 [1, 0xAB]) \<noteq> unat (0xAB00 :: u64)"
proof -
  have "orig PUSH2 0 [1, 0xAB] = Some (0xAB00, 2)"
    by code_simp
  moreover have "fst (inline_immediate_spec (push_size_of PUSH2) 0 [1, 0xAB]) = 0xAB"
    by code_simp
  ultimately show ?thesis by simp
qed

text \<open>
  C3, amended: for every \<open>PUSH1\<close> .. \<open>PUSH8\<close> at any position of any code, \<open>orig\<close>
  returns the number that the \<open>n\<close> bytes after the opcode denote big-endian, where
  \<open>n\<close> is the push data size and a byte past the end of the code counts as zero (a
  truncated immediate is padded with zeros on the right, in its low-order bytes), and
  it advances the code position by exactly \<open>n\<close>, also when the immediate is truncated.
\<close>

theorem orig_reads_immediate_big_endian:
  "\<exists>v. orig opcode code_pos bytecode = Some (v, code_pos + push_size_of opcode) \<and>
     unat v = be_nat (immediate_bytes (push_size_of opcode) code_pos bytecode)"
  by (rule orig_value)

text \<open>
  C8: on every buffer of eight bytes, the shift-and-or load \<open>load64be\<close> and the
  memcpy-and-byte-swap load \<open>load64be_fast\<close> return the same 64-bit value, and so the
  parsers \<open>orig\<close> and \<open>orig_fast_load\<close> agree on every input.
\<close>

theorem load64be_fast_agrees:
  assumes "length data = 8"
  shows "(\<exists>v. load64be data = Some v \<and> load64be_fast data = Some v) \<and>
    orig_fast_load opcode code_pos bytecode = orig opcode code_pos bytecode"
proof -
  from assms obtain v where "load64be data = Some v"
    using unat_load64be by blast
  then show ?thesis
    by (simp add: load64be_fast_eq orig_fast_load_eq)
qed

theorem load64be_fast_agrees_witness:
  "length [1, 2, 3, 4, 5, 6, 7, 8 :: u8] = 8 \<and>
   load64be_fast [1, 2, 3, 4, 5, 6, 7, 8] = Some 0x0102030405060708 \<and>
   orig_fast_load PUSH3 1 [7, 2, 0xAA, 0xBB, 0xCC, 0] = Some (0xAABBCC, 4)"
proof -
  have len: "length [1, 2, 3, 4, 5, 6, 7, 8 :: u8] = 8"
    by simp
  have l: "load64be [1, 2, 3, 4, 5, 6, 7, 8] = Some 0x0102030405060708"
    by code_simp
  have p: "orig PUSH3 1 [7, 2, 0xAA, 0xBB, 0xCC, 0] = Some (0xAABBCC, 4)"
    by code_simp
  from load64be_fast_agrees [OF len, of PUSH3 1 "[7, 2, 0xAA, 0xBB, 0xCC, 0]"] l p len
  show ?thesis by simp
qed

text \<open>
  C9: for every \<open>PUSH1\<close> .. \<open>PUSH8\<close> at position \<open>p\<close> whose whole immediate lies within
  the code (\<open>p + 1 + n \<le> code_size\<close>), the parser without the end-of-code check
  returns the same value as the checked one and leaves the code position at the same
  place.
\<close>

theorem orig_noend_agrees:
  assumes "code_pos + 1 + push_size_of opcode \<le> length bytecode"
  shows "orig_noend opcode code_pos bytecode = orig opcode code_pos bytecode \<and>
    (\<exists>v. orig_noend opcode code_pos bytecode = Some (v, code_pos + push_size_of opcode))"
  using assms orig_value [of opcode code_pos bytecode] by (auto simp: orig_noend_eq)

theorem orig_noend_agrees_witness:
  "1 + 1 + push_size_of PUSH3 \<le> length [7, 2, 0xAA, 0xBB, 0xCC, 0 :: u8] \<and>
   orig_noend PUSH3 1 [7, 2, 0xAA, 0xBB, 0xCC, 0] = Some (0xAABBCC, 4)"
proof -
  have h: "1 + 1 + push_size_of PUSH3 \<le> length [7, 2, 0xAA, 0xBB, 0xCC, 0 :: u8]"
    by (simp add: push_size_of_def)
  have p: "orig PUSH3 1 [7, 2, 0xAA, 0xBB, 0xCC, 0] = Some (0xAABBCC, 4)"
    by code_simp
  from orig_noend_agrees [OF h] p h show ?thesis by simp
qed

text \<open>
  C10: for every \<open>PUSH1\<close> .. \<open>PUSH8\<close> with data size \<open>n\<close> and every code, the value
  that \<open>orig\<close> returns is below \<open>2 ^ (8 * n)\<close>, and no access leaves a buffer: \<open>orig\<close>
  never ends in \<open>None\<close>, the outcome of a read of \<open>code\<close> at an index that is not below
  \<open>code_size\<close> (or of an access to \<open>data\<close> outside its eight bytes).
\<close>

theorem orig_value_bounded_and_reads_in_range:
  "\<exists>v. orig opcode code_pos bytecode = Some (v, code_pos + push_size_of opcode) \<and>
     unat v < 2 ^ (8 * push_size_of opcode)"
proof -
  let ?n = "push_size_of opcode"
  obtain v where v: "orig opcode code_pos bytecode = Some (v, code_pos + ?n)"
    "unat v = be_nat (immediate_bytes ?n code_pos bytecode)"
    using orig_value by blast
  have "be_nat (immediate_bytes ?n code_pos bytecode) < 256 ^ length (immediate_bytes ?n code_pos bytecode)"
    by (rule be_nat_less)
  also have "length (immediate_bytes ?n code_pos bytecode) = ?n"
    by (simp add: immediate_bytes_def)
  also have "(256::nat) ^ ?n = 2 ^ (8 * ?n)"
    by (simp add: power_mult)
  finally show ?thesis using v by auto
qed

section \<open>Properties of \<open>execute\<close>\<close>

subsection \<open>The dispatch loop\<close>

lemma dispatch_loop_halt:
  "next_instr state = None \<Longrightarrow> dispatch_loop instructions state = Some (Inr state)"
  by (subst dispatch_loop.simps) simp

lemma dispatch_loop_iterate:
  assumes "next_instr state = Some pc" and "dispatch_step instructions pc state = Inr state'"
  shows "dispatch_loop instructions state = dispatch_loop instructions state'"
  using assms by (subst dispatch_loop.simps) simp

lemma dispatch_loop_fault:
  assumes "next_instr state = Some pc" and "dispatch_step instructions pc state = Inl e"
  shows "dispatch_loop instructions state = Some (Inl e)"
  using assms by (subst dispatch_loop.simps) simp

lemma dispatch_step_in_range:
  "pc < length instructions \<Longrightarrow>
   dispatch_step instructions pc state =
     Inr (fn (instructions ! pc) (state\<lparr>next_instr := Some (pc + 1)\<rparr>) (arg (instructions ! pc)))"
  by (simp add: dispatch_step_def Let_def)


lemma dispatch_run_sound:
  "dispatch_run instructions state outcome \<Longrightarrow> dispatch_loop instructions state = Some outcome"
  by (induction rule: dispatch_run.induct)
    (simp_all add: dispatch_loop_halt dispatch_loop_fault dispatch_loop_iterate)

lemma dispatch_run_complete:
  assumes "dispatch_loop instructions state = Some outcome"
  shows "dispatch_run instructions state outcome"
proof (rule dispatch_loop.raw_induct [OF _ assms], goal_cases)
  case (1 loop instructions state outcome)
  note IH = 1(1) and unfolded = 1(2)
  show ?case
  proof (cases "next_instr state")
    case None
    with unfolded show ?thesis by (auto intro: dispatch_run.halt)
  next
    case (Some pc)
    show ?thesis
    proof (cases "dispatch_step instructions pc state")
      case (Inl e)
      with Some unfolded show ?thesis by (auto intro: dispatch_run.fault)
    next
      case (Inr state')
      with Some unfolded have "loop instructions state' = Some outcome" by simp
      then have "dispatch_run instructions state' outcome" by (rule IH)
      with Some Inr show ?thesis by (rule dispatch_run.iterate)
    qed
  qed
qed

lemma dispatch_run_iff:
  "dispatch_run instructions state outcome \<longleftrightarrow> dispatch_loop instructions state = Some outcome"
  using dispatch_run_sound dispatch_run_complete by blast

lemma dispatch_run_null_cursor:
  "dispatch_run instructions state outcome \<Longrightarrow> outcome = Inr state' \<Longrightarrow> next_instr state' = None"
  by (induction rule: dispatch_run.induct) simp_all

lemma dispatch_reaches_trans_step:
  assumes "dispatch_reaches instructions s1 s2"
    and "next_instr s0 = Some pc" and "dispatch_step instructions pc s0 = Inr s1"
  shows "dispatch_reaches instructions s0 s2"
  using assms
proof (induction rule: dispatch_reaches.induct)
  case start
  from dispatch_reaches.start start show ?case by (rule dispatch_reaches.step)
next
  case (step s pc' s')
  then show ?case by (blast intro: dispatch_reaches.step)
qed

lemma dispatch_run_reaches:
  "dispatch_run instructions state outcome \<Longrightarrow> outcome = Inr state' \<Longrightarrow>
   dispatch_reaches instructions state state'"
proof (induction rule: dispatch_run.induct)
  case (halt state)
  then show ?case by (simp add: dispatch_reaches.start)
next
  case (fault state pc e)
  then show ?case by simp
next
  case (iterate state pc s1 outcome)
  then show ?case by (blast intro: dispatch_reaches_trans_step)
qed

lemma dispatch_reaches_invariant:
  assumes "dispatch_reaches instructions state s"
    and "P state"
    and "\<And>pc s. pc < length instructions \<Longrightarrow> next_instr s = Some pc \<Longrightarrow> P s \<Longrightarrow>
      P (fn (instructions ! pc) (s\<lparr>next_instr := Some (pc + 1)\<rparr>) (arg (instructions ! pc)))"
  shows "P s"
  using assms
proof (induction rule: dispatch_reaches.induct)
  case start
  then show ?case by simp
next
  case (step s pc s')
  from step.hyps(3) have pc: "pc < length instructions"
    and s': "s' = fn (instructions ! pc) (s\<lparr>next_instr := Some (pc + 1)\<rparr>) (arg (instructions ! pc))"
    by (auto simp: dispatch_step_def Let_def split: if_splits)
  from step.IH [OF step.prems] have "P s" .
  from step.prems(2) [OF pc step.hyps(2) this] s' show ?case by simp
qed

subsection \<open>\<open>execute\<close> and its calls\<close>

lemma make_result_fields:
  assumes "make_result st g mem out_offset out_size = Inr res"
  shows "status_code res = st \<and> result_gas_left res = g \<and>
    output_data res = take out_size (drop out_offset mem) \<and> length (output_data res) = out_size"
  using assms by (auto simp: make_result_def split: if_splits)

lemma execute_Some_Inr:
  assumes "execute op_table analyze fresh ctx revision message bytecode = Some (Inr res)"
  obtains state' where
    "dispatch_loop (instrs (analyze (op_table revision) revision bytecode))
       (initial_state fresh ctx revision message bytecode) = Some (Inr state')"
    "make_result (status state')
       (if status state' = EVMC_SUCCESS \<or> status state' = EVMC_REVERT then gas_left state' else 0)
       (memory state') (output_offset state') (output_size state') = Inr res"
  using assms
  by (auto simp: execute_def Let_def split: option.splits sum.splits)

lemma run_steps_stuck:
  "step c = None \<Longrightarrow> run_steps step n c = ([], c)"
  by (cases n) simp_all

lemma run_steps_Returned:
  "run_steps (execute_step op_table analyze fresh ctx revision message bytecode) n (Returned res) =
     ([], Returned res)"
  by (rule run_steps_stuck) simp

lemma execute_calls_two:
  "execute_calls op_table analyze fresh ctx revision message bytecode (Suc (Suc n)) =
     (case run_steps (execute_step op_table analyze fresh ctx revision message bytecode) n
        (In_loop (analyze (op_table revision) revision bytecode)
           (initial_state fresh ctx revision message bytecode)) of
        (calls, control) \<Rightarrow> (Analyzer_call revision bytecode # State_construction # calls, control))"
  by (simp add: execute_calls_def split: prod.splits)

lemma loop_steps:
  assumes "run_steps (execute_step op_table analyze fresh ctx revision message bytecode) n
      (In_loop analysis state) = (calls, control)"
  shows "(\<forall>c\<in>set calls. \<not> is_analyzer_call c \<and> \<not> is_state_construction c) \<and>
    ((\<exists>s. control = In_loop analysis s \<and> dispatch_reaches (instrs analysis) state s) \<or>
     (\<exists>outcome. control = Returned (case outcome of Inl e \<Rightarrow> Inl e | Inr state' \<Rightarrow>
      make_result (status state')
        (if status state' = EVMC_SUCCESS \<or> status state' = EVMC_REVERT then gas_left state' else 0)
        (memory state') (output_offset state') (output_size state')) \<and> dispatch_run (instrs analysis) state outcome \<and>
        (\<forall>s'. outcome = Inr s' \<longrightarrow> dispatch_reaches (instrs analysis) state s')))"
  using assms
proof (induction n arbitrary: state calls control)
  case 0
  then show ?case by (auto intro: dispatch_reaches.start)
next
  case (Suc n)
  show ?case
  proof (cases "next_instr state")
    case None
    with Suc.prems have "calls = [Result_construction]"
      and "control = Returned (case Inr state of Inl e \<Rightarrow> Inl e | Inr state' \<Rightarrow>
      make_result (status state')
        (if status state' = EVMC_SUCCESS \<or> status state' = EVMC_REVERT then gas_left state' else 0)
        (memory state') (output_offset state') (output_size state'))"
      by (auto simp: run_steps_Returned Let_def)
    moreover from None have "dispatch_run (instrs analysis) state (Inr state)"
      by (rule dispatch_run.halt)
    ultimately show ?thesis
      by (auto intro: dispatch_reaches.start simp del: sum.case)
  next
    case (Some pc)
    show ?thesis
    proof (cases "dispatch_step (instrs analysis) pc state")
      case (Inl e)
      with Some Suc.prems have "calls = [Fetch_out_of_range pc]" and "control = Returned (Inl e)"
        by (auto simp: run_steps_Returned)
      moreover from Some Inl have "dispatch_run (instrs analysis) state (Inl e)"
        by (rule dispatch_run.fault)
      ultimately show ?thesis
        by (intro conjI disjI2) (simp, rule exI [of _ "Inl e"], simp)
    next
      case (Inr s1)
      with Some Suc.prems obtain calls' where
        rest: "run_steps (execute_step op_table analyze fresh ctx revision message bytecode) n
          (In_loop analysis s1) = (calls', control)"
        and calls: "calls = Instruction_call pc # calls'"
        by (auto split: prod.splits)
      note IH = Suc.IH [OF rest]
      from IH calls have no: "\<forall>c\<in>set calls. \<not> is_analyzer_call c \<and> \<not> is_state_construction c"
        by simp
      from IH have "(\<exists>s. control = In_loop analysis s \<and> dispatch_reaches (instrs analysis) s1 s) \<or>
     (\<exists>outcome. control = Returned (case outcome of Inl e \<Rightarrow> Inl e | Inr state' \<Rightarrow>
      make_result (status state')
        (if status state' = EVMC_SUCCESS \<or> status state' = EVMC_REVERT then gas_left state' else 0)
        (memory state') (output_offset state') (output_size state')) \<and> dispatch_run (instrs analysis) s1 outcome \<and>
        (\<forall>s'. outcome = Inr s' \<longrightarrow> dispatch_reaches (instrs analysis) s1 s'))"
        by (rule conjunct2)
      then show ?thesis
      proof (elim disjE exE conjE)
        fix s assume "control = In_loop analysis s" "dispatch_reaches (instrs analysis) s1 s"
        with Some Inr no show ?thesis
          by (blast intro: dispatch_reaches_trans_step)
      next
        fix outcome
        assume c: "control = Returned (case outcome of Inl e \<Rightarrow> Inl e | Inr state' \<Rightarrow>
      make_result (status state')
        (if status state' = EVMC_SUCCESS \<or> status state' = EVMC_REVERT then gas_left state' else 0)
        (memory state') (output_offset state') (output_size state'))"
          and r: "dispatch_run (instrs analysis) s1 outcome"
          and reach: "\<forall>s'. outcome = Inr s' \<longrightarrow> dispatch_reaches (instrs analysis) s1 s'"
        from Some Inr r have "dispatch_run (instrs analysis) state outcome"
          by (rule dispatch_run.iterate)
        moreover from reach Some Inr
        have "\<forall>s'. outcome = Inr s' \<longrightarrow> dispatch_reaches (instrs analysis) state s'"
          by (blast intro: dispatch_reaches_trans_step)
        ultimately show ?thesis using c no by blast
      qed
    qed
  qed
qed

lemma dispatch_run_steps:
  assumes "dispatch_run (instrs analysis) state outcome"
  shows "\<exists>n calls. run_steps (execute_step op_table analyze fresh ctx revision message bytecode) n
      (In_loop analysis state) =
    (calls, Returned (case outcome of Inl e \<Rightarrow> Inl e | Inr state' \<Rightarrow>
      make_result (status state')
        (if status state' = EVMC_SUCCESS \<or> status state' = EVMC_REVERT then gas_left state' else 0)
        (memory state') (output_offset state') (output_size state')))"
  using assms
proof (induction rule: dispatch_run.induct)
  case (halt state)
  then have "run_steps (execute_step op_table analyze fresh ctx revision message bytecode) (Suc 0)
      (In_loop analysis state) =
    ([Result_construction], Returned (
      make_result (status state)
        (if status state = EVMC_SUCCESS \<or> status state = EVMC_REVERT then gas_left state else 0)
        (memory state) (output_offset state) (output_size state)))"
    by (simp add: Let_def)
  then show ?case unfolding sum.case by blast
next
  case (fault state pc e)
  then have "run_steps (execute_step op_table analyze fresh ctx revision message bytecode) (Suc 0)
      (In_loop analysis state) = ([Fetch_out_of_range pc], Returned (Inl e))"
    by simp
  then show ?case unfolding sum.case by blast
next
  case (iterate state pc state' outcome)
  from iterate.IH obtain n calls where
    "run_steps (execute_step op_table analyze fresh ctx revision message bytecode) n
      (In_loop analysis state') =
    (calls, Returned (case outcome of Inl e \<Rightarrow> Inl e | Inr state' \<Rightarrow>
      make_result (status state')
        (if status state' = EVMC_SUCCESS \<or> status state' = EVMC_REVERT then gas_left state' else 0)
        (memory state') (output_offset state') (output_size state')))"
    by blast
  with iterate.hyps(1,2) have "run_steps (execute_step op_table analyze fresh ctx revision message bytecode) (Suc n)
      (In_loop analysis state) =
    (Instruction_call pc # calls, Returned (case outcome of Inl e \<Rightarrow> Inl e | Inr state' \<Rightarrow>
      make_result (status state')
        (if status state' = EVMC_SUCCESS \<or> status state' = EVMC_REVERT then gas_left state' else 0)
        (memory state') (output_offset state') (output_size state')))"
    by simp
  then show ?case by blast
qed

lemma execute_outcome:
  "execute op_table analyze fresh ctx revision message bytecode = Some res \<longleftrightarrow>
   (\<exists>outcome. dispatch_loop (instrs (analyze (op_table revision) revision bytecode))
        (initial_state fresh ctx revision message bytecode) = Some outcome \<and>
      res = (case outcome of Inl e \<Rightarrow> Inl e | Inr state' \<Rightarrow>
      make_result (status state')
        (if status state' = EVMC_SUCCESS \<or> status state' = EVMC_REVERT then gas_left state' else 0)
        (memory state') (output_offset state') (output_size state')))"
  by (auto simp: execute_def Let_def split: option.splits sum.splits)

lemma execute_calls_returned:
  "execute op_table analyze fresh ctx revision message bytecode = Some res \<longleftrightarrow>
   (\<exists>n calls. execute_calls op_table analyze fresh ctx revision message bytecode n =
      (calls, Returned res))"
proof
  assume "execute op_table analyze fresh ctx revision message bytecode = Some res"
  then obtain outcome where
    loop: "dispatch_loop (instrs (analyze (op_table revision) revision bytecode))
        (initial_state fresh ctx revision message bytecode) = Some outcome"
    and res: "res = (case outcome of Inl e \<Rightarrow> Inl e | Inr state' \<Rightarrow>
      make_result (status state')
        (if status state' = EVMC_SUCCESS \<or> status state' = EVMC_REVERT then gas_left state' else 0)
        (memory state') (output_offset state') (output_size state'))"
    unfolding execute_outcome by blast
  from loop have "dispatch_run (instrs (analyze (op_table revision) revision bytecode))
        (initial_state fresh ctx revision message bytecode) outcome"
    by (simp add: dispatch_run_iff)
  from dispatch_run_steps [OF this, of op_table analyze fresh ctx revision message bytecode] res
  obtain n calls where
    "run_steps (execute_step op_table analyze fresh ctx revision message bytecode) n
      (In_loop (analyze (op_table revision) revision bytecode)
         (initial_state fresh ctx revision message bytecode)) = (calls, Returned res)"
    by auto
  then have "execute_calls op_table analyze fresh ctx revision message bytecode (Suc (Suc n)) =
    (Analyzer_call revision bytecode # State_construction # calls, Returned res)"
    by (simp add: execute_calls_two)
  then show "\<exists>n calls. execute_calls op_table analyze fresh ctx revision message bytecode n =
      (calls, Returned res)"
    by blast
next
  assume "\<exists>n calls. execute_calls op_table analyze fresh ctx revision message bytecode n =
      (calls, Returned res)"
  then obtain n calls where
    c: "execute_calls op_table analyze fresh ctx revision message bytecode n = (calls, Returned res)"
    by blast
  then obtain m where n: "n = Suc (Suc m)"
    by (cases n; cases "n - 1") (auto simp: execute_calls_def split: prod.splits)
  with c obtain calls' where
    "run_steps (execute_step op_table analyze fresh ctx revision message bytecode) m
      (In_loop (analyze (op_table revision) revision bytecode)
         (initial_state fresh ctx revision message bytecode)) = (calls', Returned res)"
    by (auto simp: execute_calls_two split: prod.splits)
  from loop_steps [OF this] obtain outcome where
    "res = (case outcome of Inl e \<Rightarrow> Inl e | Inr state' \<Rightarrow>
      make_result (status state')
        (if status state' = EVMC_SUCCESS \<or> status state' = EVMC_REVERT then gas_left state' else 0)
        (memory state') (output_offset state') (output_size state'))"
    and "dispatch_run (instrs (analyze (op_table revision) revision bytecode))
        (initial_state fresh ctx revision message bytecode) outcome"
    by auto
  then show "execute op_table analyze fresh ctx revision message bytecode = Some res"
    unfolding execute_outcome by (auto simp: dispatch_run_iff)
qed

lemma execute_calls_one:
  "execute_calls op_table analyze fresh ctx revision message bytecode (Suc 0) =
     ([Analyzer_call revision bytecode], Analysed (analyze (op_table revision) revision bytecode))"
  by (simp add: execute_calls_def)

lemma execute_calls_three:
  assumes "instrs (analyze (op_table revision) revision bytecode) \<noteq> []"
  shows "execute_calls op_table analyze fresh ctx revision message bytecode (Suc (Suc (Suc 0))) =
     ([Analyzer_call revision bytecode, State_construction, Instruction_call 0],
      In_loop (analyze (op_table revision) revision bytecode)
        (fn (instrs (analyze (op_table revision) revision bytecode) ! 0)
           ((initial_state fresh ctx revision message bytecode)\<lparr>next_instr := Some 1\<rparr>)
           (arg (instrs (analyze (op_table revision) revision bytecode) ! 0))))"
  using assms
  by (simp add: execute_calls_def initial_state_def dispatch_step_def Let_def)

lemma loop_steps_calls:
  assumes "run_steps (execute_step op_table analyze fresh ctx revision message bytecode) n
      (In_loop analysis state) = (calls, control)"
  shows "filter is_analyzer_call calls = []" and "filter is_state_construction calls = []"
  using loop_steps [OF assms] by (simp_all add: filter_empty_conv)

lemma loop_steps_In_loop:
  assumes "run_steps (execute_step op_table analyze fresh ctx revision message bytecode) n
      (In_loop analysis state) = (calls, In_loop analysis' s)"
  shows "dispatch_reaches (instrs analysis) state s"
proof -
  from loop_steps [OF assms]
  have "\<exists>s'. In_loop analysis' s = In_loop analysis s' \<and> dispatch_reaches (instrs analysis) state s'"
    by (elim conjE disjE exE) simp_all
  then show ?thesis by simp
qed

lemma loop_steps_Returned:
  assumes "run_steps (execute_step op_table analyze fresh ctx revision message bytecode) n
      (In_loop analysis state) = (calls, Returned (Inr res))"
  obtains s' where "dispatch_reaches (instrs analysis) state s'"
    and "make_result (status s')
        (if status s' = EVMC_SUCCESS \<or> status s' = EVMC_REVERT then gas_left s' else 0)
        (memory s') (output_offset s') (output_size s') = Inr res"
proof -
  from loop_steps [OF assms] obtain outcome where
    r: "Inr res = (case outcome of Inl e \<Rightarrow> Inl e | Inr state' \<Rightarrow>
      make_result (status state')
        (if status state' = EVMC_SUCCESS \<or> status state' = EVMC_REVERT then gas_left state' else 0)
        (memory state') (output_offset state') (output_size state'))"
    and reach: "\<forall>s'. outcome = Inr s' \<longrightarrow> dispatch_reaches (instrs analysis) state s'"
    by (elim conjE disjE exE) simp_all
  show ?thesis
  proof (cases outcome)
    case (Inl e)
    with r show ?thesis by simp
  next
    case (Inr s')
    with r reach that [of s'] show ?thesis by simp
  qed
qed

lemma returned_iff: "returned control = Some res \<longleftrightarrow> control = Returned res"
  by (cases control) simp_all

lemma execute_returned:
  "execute op_table analyze fresh ctx revision message bytecode = Some res \<longleftrightarrow>
   (\<exists>k. returned (snd (execute_calls op_table analyze fresh ctx revision message bytecode k)) =
      Some res)"
proof -
  have "(\<exists>k. returned (snd (execute_calls op_table analyze fresh ctx revision message bytecode k)) =
      Some res) \<longleftrightarrow>
    (\<exists>k cs. execute_calls op_table analyze fresh ctx revision message bytecode k =
      (cs, Returned res))"
    unfolding returned_iff by (metis prod.collapse snd_conv)
  then show ?thesis
    by (simp only: execute_calls_returned)
qed

subsection \<open>Gas and output window under the instruction functions\<close>

text \<open>
  Two invariants of the loop, by induction on the states it passes through: with
  instruction functions that charge gas, \<open>gas_left\<close> stays at or below the message's
  \<open>gas\<close> and is not negative while the cursor is not null; with instruction functions
  that leave the output window to \<open>RETURN\<close> and \<open>REVERT\<close>, a window that is not empty
  comes with a final status of success or revert.
\<close>

lemma gas_left_bounded:
  assumes reach: "dispatch_reaches instructions (initial_state fresh ctx revision message bytecode) s'"
    and nonneg: "0 \<le> sint (gas message)"
    and charges: "\<forall>i\<in>set instructions. charges_gas i"
  shows "sint (gas_left s') \<le> sint (gas message) \<and>
    (next_instr s' \<noteq> None \<longrightarrow> 0 \<le> sint (gas_left s'))"
proof -
  let ?P = "\<lambda>s :: 'a execution_state. sint (gas_left s) \<le> sint (gas message) \<and>
    (next_instr s \<noteq> None \<longrightarrow> 0 \<le> sint (gas_left s))"
  from reach show ?thesis
  proof (rule dispatch_reaches_invariant [where P = ?P])
    show "?P (initial_state fresh ctx revision message bytecode)"
      using nonneg by (simp add: initial_state_def)
  next
    fix pc and s :: "'a execution_state"
    assume pc: "pc < length instructions" and cur: "next_instr s = Some pc" and s: "?P s"
    let ?i = "instructions ! pc"
    let ?s1 = "s\<lparr>next_instr := Some (pc + 1)\<rparr>"
    from s cur have "0 \<le> sint (gas_left ?s1)" by simp
    moreover from pc charges have "charges_gas ?i" by simp
    ultimately have "sint (gas_left (fn ?i ?s1 (arg ?i))) \<le> sint (gas_left ?s1)"
      and "sint (gas_left (fn ?i ?s1 (arg ?i))) < 0 \<longrightarrow> next_instr (fn ?i ?s1 (arg ?i)) = None"
      unfolding charges_gas_def by blast+
    with s show "?P (fn ?i ?s1 (arg ?i))"
      by auto
  qed
qed

lemma output_window_kept_empty:
  assumes run: "dispatch_loop instructions (initial_state fresh ctx revision message bytecode) =
      Some (Inr state')"
    and empty: "output_size fresh = 0"
    and keep: "\<forall>i\<in>set instructions. leaves_output_to_return i"
  shows "output_size state' = 0 \<or> status state' = EVMC_SUCCESS \<or> status state' = EVMC_REVERT"
proof -
  let ?P = "\<lambda>s :: 'a execution_state. output_size s = 0 \<or>
    (status s = EVMC_SUCCESS \<or> status s = EVMC_REVERT) \<and> next_instr s = None"
  from run have "dispatch_run instructions (initial_state fresh ctx revision message bytecode) (Inr state')"
    by (simp add: dispatch_run_iff)
  then have "dispatch_reaches instructions (initial_state fresh ctx revision message bytecode) state'"
    by (rule dispatch_run_reaches) simp
  then have "?P state'"
  proof (rule dispatch_reaches_invariant [where P = ?P])
    show "?P (initial_state fresh ctx revision message bytecode)"
      using empty by (simp add: initial_state_def)
  next
    fix pc and s :: "'a execution_state"
    assume pc: "pc < length instructions" and cur: "next_instr s = Some pc" and s: "?P s"
    let ?i = "instructions ! pc"
    let ?s1 = "s\<lparr>next_instr := Some (pc + 1)\<rparr>"
    from s cur have "output_size ?s1 = 0 \<and> next_instr ?s1 \<noteq> None" by simp
    moreover from pc keep have "leaves_output_to_return ?i" by simp
    ultimately show "?P (fn ?i ?s1 (arg ?i))"
      unfolding leaves_output_to_return_def by blast
  qed
  then show ?thesis by blast
qed

text \<open>
  Instruction functions that charge gas. On a \<open>gas_left\<close> that is not negative, a cost
  that is not negative is subtracted without wrap-around. So a function that subtracts
  its cost and then tests the sign of \<open>gas_left\<close> charges gas in the sense above, and
  so does the block header of the examples, which tests before it subtracts.
\<close>

lemma sint_charge:
  fixes g c :: int64
  assumes "0 \<le> sint g" and "0 \<le> sint c"
  shows "sint (g - c) = sint g - sint c"
proof -
  have "sint g < 2 ^ 63" and "sint c < 2 ^ 63"
    using sint_lt [of g] sint_lt [of c] by simp_all
  with assms have "- (2 ^ 63) \<le> sint g - sint c" and "sint g - sint c < 2 ^ 63"
    by simp_all
  then have "signed_take_bit 63 (sint g - sint c) = sint g - sint c"
    by (rule signed_take_bit_int_eq_self)
  then show ?thesis by (simp add: sint_word_diff)
qed

lemma sint_word_of_int_cost:
  assumes "0 \<le> c" and "c \<le> sint (g :: int64)"
  shows "sint (word_of_int c :: int64) = c"
proof -
  from assms sint_lt [of g] have "- (2 ^ 63) \<le> c" and "c < 2 ^ 63" by simp_all
  then have "signed_take_bit 63 c = c" by (rule signed_take_bit_int_eq_self)
  then show ?thesis by (simp add: sint_sbintrunc')
qed

lemma charge_then_test_charges_gas:
  assumes "0 \<le> sint cost"
    and "\<And>s. fn instr s (arg instr) =
      (if sint (gas_left s - cost) < 0
       then s\<lparr>gas_left := gas_left s - cost, next_instr := None, status := EVMC_OUT_OF_GAS\<rparr>
       else s\<lparr>gas_left := gas_left s - cost\<rparr>)"
  shows "charges_gas instr"
  unfolding charges_gas_def
proof (intro allI impI)
  fix s :: "'a execution_state"
  assume "0 \<le> sint (gas_left s)"
  with assms(1) have "sint (gas_left s - cost) = sint (gas_left s) - sint cost"
    by (simp add: sint_charge)
  with assms(1) have "sint (gas_left s - cost) \<le> sint (gas_left s)" by simp
  then show "sint (gas_left (fn instr s (arg instr))) \<le> sint (gas_left s) \<and>
    (sint (gas_left (fn instr s (arg instr))) < 0 \<longrightarrow> next_instr (fn instr s (arg instr)) = None)"
    by (simp add: assms(2))
qed

lemma example_beginblock_charges_gas:
  assumes "0 \<le> gas_cost block"
  shows "charges_gas \<lparr>fn = example_beginblock, arg = Block_header block\<rparr>"
  unfolding charges_gas_def
proof (intro allI impI)
  fix s :: "unit execution_state"
  assume nonneg: "0 \<le> sint (gas_left s)"
  let ?s' = "fn \<lparr>fn = example_beginblock, arg = Block_header block\<rparr> s
    (arg \<lparr>fn = example_beginblock, arg = Block_header block\<rparr>)"
  show "sint (gas_left ?s') \<le> sint (gas_left s) \<and> (sint (gas_left ?s') < 0 \<longrightarrow> next_instr ?s' = None)"
  proof (cases "sint (gas_left s) < gas_cost block")
    case True
    with nonneg show ?thesis by (simp add: example_beginblock_def)
  next
    case False
    then have le: "gas_cost block \<le> sint (gas_left s)" by simp
    with assms have c: "sint (word_of_int (gas_cost block) :: int64) = gas_cost block"
      by (rule sint_word_of_int_cost)
    with nonneg assms
    have "sint (gas_left s - word_of_int (gas_cost block)) = sint (gas_left s) - gas_cost block"
      by (simp add: sint_charge)
    with le assms nonneg show ?thesis
      by (simp add: example_beginblock_def)
  qed
qed

lemma example_op_table_charges_gas:
  assumes "opcode \<noteq> 0x5B"
  shows "charges_gas \<lparr>fn = example_op_table revision opcode, arg = a\<rparr>"
  using assms
  by (simp add: charges_gas_def example_op_table_def example_stop_def example_jump_def
      example_push_def example_return_def split: list.splits instr_argument.splits)

lemma example_analyze_blocks_charges_gas:
  assumes "0x5B \<notin> set bytecode"
  shows "\<forall>i\<in>set (instrs (example_analyze_blocks (example_op_table revision) revision bytecode)).
     charges_gas i"
proof -
  have "example_op_table revision 0x5B = example_beginblock"
    by (simp add: example_op_table_def)
  moreover have "charges_gas \<lparr>fn = example_beginblock,
      arg = Block_header \<lparr>gas_cost = 3 * int (length bytecode), stack_req = 0,
                  stack_max_growth = int (length bytecode)\<rparr>\<rparr>"
    by (rule example_beginblock_charges_gas) simp
  ultimately show ?thesis
    using assms
    by (auto simp: example_analyze_blocks_def example_analyze_def
        intro!: example_op_table_charges_gas)
qed

text \<open>The instruction functions of the examples leave the output window to the return.\<close>

lemma example_op_table_leaves_output:
  "leaves_output_to_return \<lparr>fn = example_op_table revision opcode, arg = a\<rparr>"
  by (simp add: leaves_output_to_return_def example_op_table_def example_stop_def
      example_jump_def example_push_def example_return_def example_beginblock_def
      split: list.splits instr_argument.splits)

lemma example_analyze_leaves_output:
  "\<forall>i\<in>set (instrs (example_analyze (example_op_table revision) revision bytecode)).
     leaves_output_to_return i"
  by (auto simp: example_analyze_def example_op_table_leaves_output)

lemma example_analyze_blocks_leaves_output:
  "\<forall>i\<in>set (instrs (example_analyze_blocks (example_op_table revision) revision bytecode)).
     leaves_output_to_return i"
  by (auto simp: example_analyze_blocks_def example_analyze_def example_op_table_leaves_output)

subsection \<open>The claims about \<open>execute\<close>\<close>

text \<open>
  C1: in the result of every execution of \<open>execute\<close>, the status is the status of the
  final state, and \<open>gas_left\<close> is the final state's \<open>gas_left\<close> if that status is
  success or revert and 0 for every other status; in the second case the output is
  empty. The part about the status and the gas is lines 42 to 46 and holds for every
  analyzer and all instruction functions. The output that \<open>execute\<close> returns is the
  output window of the final state, \<open>output_size\<close> bytes of the memory from
  \<open>output_offset\<close>, whatever the status: it is empty on a failure because the window
  of a new state is empty and the instruction functions leave it to \<open>RETURN\<close> and
  \<open>REVERT\<close>, as the specification says of them (\<open>leaves_output_to_return\<close>).
\<close>

theorem execute_result_of_final_state:
  assumes "execute op_table analyze fresh ctx revision message bytecode = Some (Inr res)"
  shows "\<exists>state'.
      dispatch_loop (instrs (analyze (op_table revision) revision bytecode))
        (initial_state fresh ctx revision message bytecode) = Some (Inr state') \<and>
      status_code res = status state' \<and>
      result_gas_left res =
        (if status state' = EVMC_SUCCESS \<or> status state' = EVMC_REVERT
         then gas_left state' else 0) \<and>
      output_data res = take (output_size state') (drop (output_offset state') (memory state')) \<and>
      length (output_data res) = output_size state' \<and>
      (output_size fresh = 0 \<and>
       (\<forall>i\<in>set (instrs (analyze (op_table revision) revision bytecode)).
          leaves_output_to_return i) \<and>
       status state' \<noteq> EVMC_SUCCESS \<and> status state' \<noteq> EVMC_REVERT
         \<longrightarrow> result_gas_left res = 0 \<and> output_data res = [])"
proof -
  from assms obtain state' where
    run: "dispatch_loop (instrs (analyze (op_table revision) revision bytecode))
       (initial_state fresh ctx revision message bytecode) = Some (Inr state')"
    and res: "make_result (status state')
       (if status state' = EVMC_SUCCESS \<or> status state' = EVMC_REVERT then gas_left state' else 0)
       (memory state') (output_offset state') (output_size state') = Inr res"
    by (rule execute_Some_Inr)
  note fields = make_result_fields [OF res]
  have failure: "output_size fresh = 0 \<and>
       (\<forall>i\<in>set (instrs (analyze (op_table revision) revision bytecode)).
          leaves_output_to_return i) \<and>
       status state' \<noteq> EVMC_SUCCESS \<and> status state' \<noteq> EVMC_REVERT
         \<longrightarrow> result_gas_left res = 0 \<and> output_data res = []"
  proof (intro impI, elim conjE)
    assume empty: "output_size fresh = 0"
      and keep: "\<forall>i\<in>set (instrs (analyze (op_table revision) revision bytecode)).
          leaves_output_to_return i"
      and failed: "status state' \<noteq> EVMC_SUCCESS" "status state' \<noteq> EVMC_REVERT"
    from output_window_kept_empty [OF run empty keep] failed
    have "output_size state' = 0" by simp
    with fields failed show "result_gas_left res = 0 \<and> output_data res = []" by simp
  qed
  show ?thesis
    by (rule exI [of _ state']) (use run fields failure in \<open>intro conjI; simp\<close>)
qed

theorem execute_result_of_final_state_witness:
  "execute example_op_table example_analyze_blocks example_fresh () EVMC_ISTANBUL example_message
     [7, 0xF3, 9] =
     Some (Inr \<lparr>status_code = EVMC_SUCCESS, result_gas_left = 91, output_data = [0xAA]\<rparr>) \<and>
   dispatch_loop
     (instrs (example_analyze_blocks (example_op_table EVMC_ISTANBUL) EVMC_ISTANBUL [7, 0xF3, 9]))
     (initial_state example_fresh () EVMC_ISTANBUL example_message [7, 0xF3, 9]) =
     Some (Inr ((initial_state example_fresh () EVMC_ISTANBUL example_message [7, 0xF3, 9])
       \<lparr>next_instr := None, gas_left := 91, stack := [7], memory := [0xAA],
         output_offset := 0, output_size := 1\<rparr>)) \<and>
   execute example_op_table example_analyze_blocks example_fresh () EVMC_ISTANBUL example_message
     [0x56] =
     Some (Inr \<lparr>status_code = EVMC_STACK_UNDERFLOW, result_gas_left = 0, output_data = []\<rparr>) \<and>
   dispatch_loop
     (instrs (example_analyze_blocks (example_op_table EVMC_ISTANBUL) EVMC_ISTANBUL [0x56]))
     (initial_state example_fresh () EVMC_ISTANBUL example_message [0x56]) =
     Some (Inr ((initial_state example_fresh () EVMC_ISTANBUL example_message [0x56])
       \<lparr>next_instr := None, status := EVMC_STACK_UNDERFLOW, gas_left := 97\<rparr>)) \<and>
   result_gas_left \<lparr>status_code = EVMC_STACK_UNDERFLOW, result_gas_left = 0, output_data = []\<rparr> = 0 \<and>
   output_data \<lparr>status_code = EVMC_STACK_UNDERFLOW, result_gas_left = 0, output_data = []\<rparr> = []"
proof -
  let ?returned = "\<lparr>status_code = EVMC_SUCCESS, result_gas_left = 91, output_data = [0xAA]\<rparr>"
  let ?failed = "\<lparr>status_code = EVMC_STACK_UNDERFLOW, result_gas_left = 0, output_data = []\<rparr>"
  let ?code1 = "[7, 0xF3, 9] :: u8 list"
  let ?code2 = "[0x56] :: u8 list"
  let ?final1 = "(initial_state example_fresh () EVMC_ISTANBUL example_message ?code1)
       \<lparr>next_instr := None, gas_left := 91, stack := [7], memory := [0xAA],
         output_offset := 0, output_size := 1\<rparr>"
  let ?final2 = "(initial_state example_fresh () EVMC_ISTANBUL example_message ?code2)
       \<lparr>next_instr := None, status := EVMC_STACK_UNDERFLOW, gas_left := 97\<rparr>"
  have run1: "execute example_op_table example_analyze_blocks example_fresh () EVMC_ISTANBUL
      example_message ?code1 = Some (Inr ?returned)"
    by code_simp
  have loop1: "dispatch_loop
     (instrs (example_analyze_blocks (example_op_table EVMC_ISTANBUL) EVMC_ISTANBUL ?code1))
     (initial_state example_fresh () EVMC_ISTANBUL example_message ?code1) = Some (Inr ?final1)"
    by code_simp
  have run2: "execute example_op_table example_analyze_blocks example_fresh () EVMC_ISTANBUL
      example_message ?code2 = Some (Inr ?failed)"
    by code_simp
  have loop2: "dispatch_loop
     (instrs (example_analyze_blocks (example_op_table EVMC_ISTANBUL) EVMC_ISTANBUL ?code2))
     (initial_state example_fresh () EVMC_ISTANBUL example_message ?code2) = Some (Inr ?final2)"
    by code_simp
  have empty: "output_size example_fresh = 0"
    by (simp add: example_fresh_def)
  from execute_result_of_final_state [OF run2] loop2 empty
    example_analyze_blocks_leaves_output [of EVMC_ISTANBUL ?code2]
  have "result_gas_left ?failed = 0 \<and> output_data ?failed = []"
    by simp
  with run1 loop1 run2 loop2 show ?thesis by blast
qed

text \<open>
  C2: an iteration of the dispatch loop reads the instruction at the cursor, advances
  the cursor, and then calls the instruction's function on the state and the
  instruction's argument; the loop goes on with the state the function returns. So the
  cursor is one past the instruction if the function leaves the cursor alone (linear
  flow), it is the target if a jump overwrote it, and the loop ends if a terminator set
  it to null. The loop runs exactly until the cursor is null: with a null cursor it
  exits at once and runs no instruction, with a cursor in the instruction vector it
  runs the iteration and goes on, and whenever it exits the cursor of the final state is
  null.
\<close>

theorem dispatch_loop_fetch_advance_invoke:
  assumes after_def: "after =
    fn (instructions ! pc) (state\<lparr>next_instr := Some (pc + 1)\<rparr>) (arg (instructions ! pc))"
  shows "(next_instr state = None \<longrightarrow> dispatch_loop instructions state = Some (Inr state)) \<and>
   (next_instr state = Some pc \<and> pc < length instructions \<longrightarrow>
      dispatch_loop instructions state = dispatch_loop instructions after) \<and>
   (next_instr state = Some pc \<and> pc < length instructions \<and>
    (\<forall>s a. next_instr (fn (instructions ! pc) s a) = next_instr s) \<longrightarrow>
      next_instr after = Some (pc + 1)) \<and>
   (next_instr state = Some pc \<and> pc < length instructions \<and> next_instr after = None \<longrightarrow>
      dispatch_loop instructions state = Some (Inr after)) \<and>
   (dispatch_loop instructions state = Some (Inr state') \<longrightarrow> next_instr state' = None)"
proof (intro conjI impI)
  assume "next_instr state = None"
  then show "dispatch_loop instructions state = Some (Inr state)"
    by (rule dispatch_loop_halt)
next
  assume "next_instr state = Some pc \<and> pc < length instructions"
  then show "dispatch_loop instructions state = dispatch_loop instructions after"
    by (simp add: after_def dispatch_loop_iterate dispatch_step_in_range)
next
  assume "next_instr state = Some pc \<and> pc < length instructions \<and>
    (\<forall>s a. next_instr (fn (instructions ! pc) s a) = next_instr s)"
  then show "next_instr after = Some (pc + 1)"
    by (simp add: after_def)
next
  assume "next_instr state = Some pc \<and> pc < length instructions \<and> next_instr after = None"
  then have "dispatch_loop instructions state = dispatch_loop instructions after"
    and "next_instr after = None"
    by (simp_all add: after_def dispatch_loop_iterate dispatch_step_in_range)
  then show "dispatch_loop instructions state = Some (Inr after)"
    by (simp add: dispatch_loop_halt)
next
  assume "dispatch_loop instructions state = Some (Inr state')"
  then have "dispatch_run instructions state (Inr state')"
    by (simp add: dispatch_run_iff)
  then show "next_instr state' = None"
    by (rule dispatch_run_null_cursor) simp
qed

theorem dispatch_loop_fetch_advance_invoke_witness:
  "next_instr (initial_state example_fresh () EVMC_ISTANBUL example_message [7, 4, 0x56, 9, 0]) = Some 0 \<and>
   0 < length (instrs (example_analyze (example_op_table EVMC_ISTANBUL) EVMC_ISTANBUL
         [7, 4, 0x56, 9, 0])) \<and>
   dispatch_loop
     (instrs (example_analyze (example_op_table EVMC_ISTANBUL) EVMC_ISTANBUL [7, 4, 0x56, 9, 0]))
     (initial_state example_fresh () EVMC_ISTANBUL example_message [7, 4, 0x56, 9, 0]) =
   dispatch_loop
     (instrs (example_analyze (example_op_table EVMC_ISTANBUL) EVMC_ISTANBUL [7, 4, 0x56, 9, 0]))
     ((initial_state example_fresh () EVMC_ISTANBUL example_message [7, 4, 0x56, 9, 0])
        \<lparr>next_instr := Some 1, stack := [7]\<rparr>) \<and>
   next_instr ((initial_state example_fresh () EVMC_ISTANBUL example_message [7, 4, 0x56, 9, 0])
        \<lparr>next_instr := Some 1, stack := [7]\<rparr>) = Some (0 + 1) \<and>
   dispatch_loop
     (instrs (example_analyze (example_op_table EVMC_ISTANBUL) EVMC_ISTANBUL [7, 4, 0x56, 9, 0]))
     (initial_state example_fresh () EVMC_ISTANBUL example_message [7, 4, 0x56, 9, 0]) =
   Some (Inr ((initial_state example_fresh () EVMC_ISTANBUL example_message [7, 4, 0x56, 9, 0])
        \<lparr>next_instr := None, stack := [7]\<rparr>)) \<and>
   next_instr ((initial_state example_fresh () EVMC_ISTANBUL example_message [7, 4, 0x56, 9, 0])
        \<lparr>next_instr := None, stack := [7]\<rparr>) = None"
proof -
  let ?code = "[7, 4, 0x56, 9, 0] :: u8 list"
  let ?instrs = "instrs (example_analyze (example_op_table EVMC_ISTANBUL) EVMC_ISTANBUL ?code)"
  let ?s0 = "initial_state example_fresh () EVMC_ISTANBUL example_message ?code"
  let ?s1 = "?s0\<lparr>next_instr := Some 1, stack := [7]\<rparr>"
  let ?final = "?s0\<lparr>next_instr := None, stack := [7]\<rparr>"
  have start: "next_instr ?s0 = Some 0 \<and> 0 < length ?instrs"
    by code_simp
  have first: "?s1 = fn (?instrs ! 0) (?s0\<lparr>next_instr := Some (0 + 1)\<rparr>) (arg (?instrs ! 0))"
    by code_simp
  have linear: "\<forall>s a. next_instr (fn (?instrs ! 0) s a) = next_instr s"
    by (simp add: example_analyze_def example_op_table_def example_push_def
        split: instr_argument.splits)
  have run: "dispatch_loop ?instrs ?s0 = Some (Inr ?final)"
    by code_simp
  from dispatch_loop_fetch_advance_invoke [OF first, of ?final] start linear run
  show ?thesis by simp
qed

text \<open>
  C7: every invocation of \<open>execute\<close> calls the analyzer exactly once, on the opcode
  table of the revision and the code; then it constructs a new execution state whose
  \<open>gas_left\<close> is the message's \<open>gas\<close> and whose cursor points at the first
  instruction; then it enters the dispatch loop; and \<open>gas_left\<close> never exceeds the
  message's \<open>gas\<close>. In the model, for the calls of \<open>execute\<close> in order: the first
  step is the call of the analyzer and leaves the analysis of
  \<open>(op_table revision, revision, code)\<close>; the second is the construction of the state
  and leaves the machine at the head of the loop with that analysis and the state
  \<open>start\<close>, which has the message's \<open>gas\<close>, the cursor at index 0 and, in every
  field that \<open>execute\<close> does not assign, the value of a new state; the third, if
  there is an instruction, is the call of the function of instruction 0 on \<open>start\<close>
  with the cursor advanced. However long the run, its calls begin with these two and
  hold no other call of the analyzer and no other construction of a state. The
  machine returns what \<open>execute\<close> returns. What the loop does to \<open>gas_left\<close> is
  the instruction functions' doing: with a message whose \<open>gas\<close> is not negative and
  instruction functions that charge gas as the specification says (\<open>charges_gas\<close>),
  \<open>gas_left\<close> is at most the message's \<open>gas\<close> at every head of the loop, and so is
  the \<open>gas_left\<close> of the result.
\<close>

theorem execute_analyzes_once_then_starts_fresh:
  assumes analysis_def: "analysis = analyze (op_table revision) revision bytecode"
    and start_def: "start = initial_state fresh ctx revision message bytecode"
    and run: "execute_calls op_table analyze fresh ctx revision message bytecode (Suc (Suc n)) =
      (calls, control)"
  shows "execute_calls op_table analyze fresh ctx revision message bytecode (Suc 0) =
      ([Analyzer_call revision bytecode], Analysed analysis) \<and>
    execute_calls op_table analyze fresh ctx revision message bytecode (Suc (Suc 0)) =
      ([Analyzer_call revision bytecode, State_construction], In_loop analysis start) \<and>
    gas_left start = gas message \<and> next_instr start = Some 0 \<and>
    msg start = message \<and> code start = bytecode \<and> code_size start = length bytecode \<and>
    host start = ctx \<and> rev' start = revision \<and>
    start\<lparr>next_instr := next_instr fresh, msg := msg fresh, code := code fresh,
      code_size := code_size fresh, host := host fresh, gas_left := gas_left fresh,
      rev' := rev' fresh\<rparr> = fresh \<and>
    (instrs analysis \<noteq> [] \<longrightarrow>
       execute_calls op_table analyze fresh ctx revision message bytecode (Suc (Suc (Suc 0))) =
         ([Analyzer_call revision bytecode, State_construction, Instruction_call 0],
          In_loop analysis
            (fn (instrs analysis ! 0) (start\<lparr>next_instr := Some 1\<rparr>) (arg (instrs analysis ! 0))))) \<and>
    take 2 calls = [Analyzer_call revision bytecode, State_construction] \<and>
    filter is_analyzer_call calls = [Analyzer_call revision bytecode] \<and>
    filter is_state_construction calls = [State_construction] \<and>
    (execute op_table analyze fresh ctx revision message bytecode = Some res \<longleftrightarrow>
       (\<exists>k. returned (snd (execute_calls op_table analyze fresh ctx revision message bytecode k)) =
          Some res)) \<and>
    (0 \<le> sint (gas message) \<and> (\<forall>i\<in>set (instrs analysis). charges_gas i) \<longrightarrow>
       (\<forall>s. loop_state control = Some s \<longrightarrow> sint (gas_left s) \<le> sint (gas message)) \<and>
       (\<forall>r. returned control = Some (Inr r) \<longrightarrow> sint (result_gas_left r) \<le> sint (gas message)))"
proof -
  let ?step = "execute_step op_table analyze fresh ctx revision message bytecode"
  obtain calls' control' where
    rest: "run_steps ?step n (In_loop analysis start) = (calls', control')"
    by (cases "run_steps ?step n (In_loop analysis start)")
  with run have calls: "calls = Analyzer_call revision bytecode # State_construction # calls'"
    and control: "control' = control"
    by (simp_all add: execute_calls_two analysis_def start_def)
  from rest control have loop: "run_steps ?step n (In_loop analysis start) = (calls', control)"
    by simp
  note none = loop_steps_calls [OF loop]
  have gas: "(\<forall>s. loop_state control = Some s \<longrightarrow> sint (gas_left s) \<le> sint (gas message)) \<and>
       (\<forall>r. returned control = Some (Inr r) \<longrightarrow> sint (result_gas_left r) \<le> sint (gas message))"
    if nonneg: "0 \<le> sint (gas message)" and charges: "\<forall>i\<in>set (instrs analysis). charges_gas i"
  proof (intro conjI allI impI)
    fix s assume "loop_state control = Some s"
    then obtain a where "control = In_loop a s"
      by (cases control) simp_all
    with loop have "run_steps ?step n (In_loop analysis start) = (calls', In_loop a s)"
      by simp
    then have "dispatch_reaches (instrs analysis) start s"
      by (rule loop_steps_In_loop)
    then have "dispatch_reaches (instrs analysis)
        (initial_state fresh ctx revision message bytecode) s"
      by (simp only: start_def)
    from gas_left_bounded [OF this nonneg charges]
    show "sint (gas_left s) \<le> sint (gas message)" by (rule conjunct1)
  next
    fix r assume "returned control = Some (Inr r)"
    then have "control = Returned (Inr r)"
      by (cases control) simp_all
    with loop have "run_steps ?step n (In_loop analysis start) = (calls', Returned (Inr r))"
      by simp
    then obtain s' where reach: "dispatch_reaches (instrs analysis) start s'"
      and res: "make_result (status s')
        (if status s' = EVMC_SUCCESS \<or> status s' = EVMC_REVERT then gas_left s' else 0)
        (memory s') (output_offset s') (output_size s') = Inr r"
      by (rule loop_steps_Returned)
    from reach have "dispatch_reaches (instrs analysis)
        (initial_state fresh ctx revision message bytecode) s'"
      by (simp only: start_def)
    from gas_left_bounded [OF this nonneg charges]
    have bound: "sint (gas_left s') \<le> sint (gas message)" by (rule conjunct1)
    from make_result_fields [OF res]
    have "result_gas_left r =
      (if status s' = EVMC_SUCCESS \<or> status s' = EVMC_REVERT then gas_left s' else 0)"
      by (rule conjunct1 [OF conjunct2])
    with bound nonneg show "sint (result_gas_left r) \<le> sint (gas message)"
      by (cases "status s' = EVMC_SUCCESS \<or> status s' = EVMC_REVERT") simp_all
  qed
  show ?thesis
  proof (intro conjI impI)
    show "execute_calls op_table analyze fresh ctx revision message bytecode (Suc 0) =
      ([Analyzer_call revision bytecode], Analysed analysis)"
      by (simp add: execute_calls_one analysis_def)
    show "execute_calls op_table analyze fresh ctx revision message bytecode (Suc (Suc 0)) =
      ([Analyzer_call revision bytecode, State_construction], In_loop analysis start)"
      by (simp add: execute_calls_two analysis_def start_def)
    show "take 2 calls = [Analyzer_call revision bytecode, State_construction]"
      by (simp add: calls)
    show "filter is_analyzer_call calls = [Analyzer_call revision bytecode]"
      by (simp add: calls none)
    show "filter is_state_construction calls = [State_construction]"
      by (simp add: calls none)
    show "execute op_table analyze fresh ctx revision message bytecode = Some res \<longleftrightarrow>
       (\<exists>k. returned (snd (execute_calls op_table analyze fresh ctx revision message bytecode k)) =
          Some res)"
      by (rule execute_returned)
  next
    assume "instrs analysis \<noteq> []"
    then have "instrs (analyze (op_table revision) revision bytecode) \<noteq> []"
      unfolding analysis_def .
    from execute_calls_three [where analyze = analyze and op_table = op_table
        and revision = revision and bytecode = bytecode and fresh = fresh and ctx = ctx
        and message = message, OF this]
    show "execute_calls op_table analyze fresh ctx revision message bytecode (Suc (Suc (Suc 0))) =
         ([Analyzer_call revision bytecode, State_construction, Instruction_call 0],
          In_loop analysis
            (fn (instrs analysis ! 0) (start\<lparr>next_instr := Some 1\<rparr>) (arg (instrs analysis ! 0))))"
      unfolding analysis_def start_def .
  next
    assume "0 \<le> sint (gas message) \<and> (\<forall>i\<in>set (instrs analysis). charges_gas i)"
    then have "0 \<le> sint (gas message)" and "\<forall>i\<in>set (instrs analysis). charges_gas i"
      by simp_all
    then have g: "(\<forall>s. loop_state control = Some s \<longrightarrow> sint (gas_left s) \<le> sint (gas message)) \<and>
       (\<forall>r. returned control = Some (Inr r) \<longrightarrow> sint (result_gas_left r) \<le> sint (gas message))"
      by (rule gas)
    from g show "\<forall>s. loop_state control = Some s \<longrightarrow> sint (gas_left s) \<le> sint (gas message)"
      by (rule conjunct1)
    from g show "\<forall>r. returned control = Some (Inr r) \<longrightarrow> sint (result_gas_left r) \<le> sint (gas message)"
      by (rule conjunct2)
  qed (simp_all add: start_def initial_state_def)
qed

theorem execute_analyzes_once_then_starts_fresh_witness:
  "fst (execute_calls example_op_table example_analyze_blocks example_fresh () EVMC_ISTANBUL
     example_message [7, 8, 0] (Suc (Suc 2))) =
     [Analyzer_call EVMC_ISTANBUL [7, 8, 0], State_construction, Instruction_call 0,
      Instruction_call 1] \<and>
   filter is_analyzer_call
     (fst (execute_calls example_op_table example_analyze_blocks example_fresh () EVMC_ISTANBUL
        example_message [7, 8, 0] (Suc (Suc 2)))) = [Analyzer_call EVMC_ISTANBUL [7, 8, 0]] \<and>
   gas_left (initial_state example_fresh () EVMC_ISTANBUL example_message [7, 8, 0]) = 100 \<and>
   next_instr (initial_state example_fresh () EVMC_ISTANBUL example_message [7, 8, 0]) = Some 0 \<and>
   loop_state (snd (execute_calls example_op_table example_analyze_blocks example_fresh ()
     EVMC_ISTANBUL example_message [7, 8, 0] (Suc (Suc 2)))) =
     Some ((initial_state example_fresh () EVMC_ISTANBUL example_message [7, 8, 0])
       \<lparr>next_instr := Some 2, gas_left := 91, stack := [7]\<rparr>) \<and>
   sint (gas_left ((initial_state example_fresh () EVMC_ISTANBUL example_message [7, 8, 0])
       \<lparr>next_instr := Some 2, gas_left := 91, stack := [7]\<rparr>)) \<le> sint (gas example_message) \<and>
   returned (snd (execute_calls example_op_table example_analyze_blocks example_fresh ()
     EVMC_ISTANBUL example_message [7, 8, 0] (Suc (Suc 5)))) =
     Some (Inr \<lparr>status_code = EVMC_SUCCESS, result_gas_left = 91, output_data = []\<rparr>) \<and>
   sint (result_gas_left \<lparr>status_code = EVMC_SUCCESS, result_gas_left = 91, output_data = []\<rparr>)
     \<le> sint (gas example_message) \<and>
   execute example_op_table example_analyze_blocks example_fresh () EVMC_ISTANBUL example_message
     [7, 8, 0] =
     Some (Inr \<lparr>status_code = EVMC_SUCCESS, result_gas_left = 91, output_data = []\<rparr>)"
proof -
  let ?code = "[7, 8, 0] :: u8 list"
  let ?analysis = "example_analyze_blocks (example_op_table EVMC_ISTANBUL) EVMC_ISTANBUL ?code"
  let ?s0 = "initial_state example_fresh () EVMC_ISTANBUL example_message ?code"
  let ?s2 = "?s0\<lparr>next_instr := Some 2, gas_left := 91, stack := [7]\<rparr>"
  let ?calls = "[Analyzer_call EVMC_ISTANBUL ?code, State_construction, Instruction_call 0,
       Instruction_call 1]"
  let ?res = "\<lparr>status_code = EVMC_SUCCESS, result_gas_left = 91, output_data = []\<rparr>"
  let ?run = "execute_calls example_op_table example_analyze_blocks example_fresh () EVMC_ISTANBUL
     example_message ?code"
  have calls: "fst (?run (Suc (Suc 2))) = ?calls"
    by code_simp
  have at: "loop_state (snd (?run (Suc (Suc 2)))) = Some ?s2"
    by code_simp
  have ret: "returned (snd (?run (Suc (Suc 5)))) = Some (Inr ?res)"
    by code_simp
  have nonneg: "0 \<le> sint (gas example_message)" and gas100: "gas example_message = 100"
    by (simp_all add: example_message_def)
  have charges: "\<forall>i\<in>set (instrs ?analysis). charges_gas i"
    by (rule example_analyze_blocks_charges_gas) simp
  have pair: "?run k = (fst (?run k), snd (?run k))" for k
    by simp
  note in_loop = execute_analyzes_once_then_starts_fresh [where analyze = example_analyze_blocks
      and op_table = example_op_table and revision = EVMC_ISTANBUL and bytecode = ?code
      and fresh = example_fresh and ctx = "()" and message = example_message and n = 2
      and res = "Inr ?res", OF refl refl pair]
  note after_return = execute_analyzes_once_then_starts_fresh [where analyze = example_analyze_blocks
      and op_table = example_op_table and revision = EVMC_ISTANBUL and bytecode = ?code
      and fresh = example_fresh and ctx = "()" and message = example_message and n = 5
      and res = "Inr ?res", OF refl refl pair]
  from in_loop have once: "filter is_analyzer_call (fst (?run (Suc (Suc 2)))) =
      [Analyzer_call EVMC_ISTANBUL ?code]"
    and start: "gas_left ?s0 = gas example_message" "next_instr ?s0 = Some 0"
    and exec: "execute example_op_table example_analyze_blocks example_fresh () EVMC_ISTANBUL
      example_message ?code = Some (Inr ?res) \<longleftrightarrow> (\<exists>k. returned (snd (?run k)) = Some (Inr ?res))"
    by blast+
  from in_loop nonneg charges
  have "\<forall>s. loop_state (snd (?run (Suc (Suc 2)))) = Some s \<longrightarrow>
      sint (gas_left s) \<le> sint (gas example_message)"
    by blast
  with at have bound: "sint (gas_left ?s2) \<le> sint (gas example_message)"
    by blast
  from after_return nonneg charges
  have "\<forall>r. returned (snd (?run (Suc (Suc 5)))) = Some (Inr r) \<longrightarrow>
      sint (result_gas_left r) \<le> sint (gas example_message)"
    by blast
  with ret have bound': "sint (result_gas_left ?res) \<le> sint (gas example_message)"
    by blast
  from exec ret have "execute example_op_table example_analyze_blocks example_fresh ()
      EVMC_ISTANBUL example_message ?code = Some (Inr ?res)"
    by blast
  with calls once start gas100 at bound ret bound' show ?thesis
    by (intro conjI) (simp_all only:)
qed

end
